theory Spec2Isabelle
  imports Main "HOL-Library.AList" "HOL-Library.Char_ord" "HOL-Library.List_Lexorder" "HOL-Library.Word"
begin

section \<open>Go values held in an interface\<close>

text \<open>
  The library works on \<^verbatim>\<open>map[string]any\<close>. A value of type \<^verbatim>\<open>any\<close> is a
  dynamic type together with a value; the type switch of \<^verbatim>\<open>rewriteMap\<close> tells
  \<^verbatim>\<open>map[string]any\<close>, \<^verbatim>\<open>[]map[string]any\<close> and everything else apart, so each dynamic
  type the library meets is a constructor of its own. \<^verbatim>\<open>encoding/json\<close> decodes into
  \<^verbatim>\<open>nil\<close>, \<^verbatim>\<open>bool\<close>, \<^verbatim>\<open>float64\<close>, \<^verbatim>\<open>string\<close>, \<^verbatim>\<open>[]any\<close> and \<^verbatim>\<open>map[string]any\<close>;
  the overwrite a test author writes may hold \<^verbatim>\<open>int\<close>, \<^verbatim>\<open>[]string\<close>, \<^verbatim>\<open>[]int\<close> and
  \<^verbatim>\<open>[]map[string]any\<close> as well. The representation of \<^verbatim>\<open>float64\<close> is the type
  parameter \<open>'f\<close>: \<^verbatim>\<open>rewriteMap\<close> never looks into a number.

  A Go map is an association list with distinct keys. The order of the list is the order
  in which \<^verbatim>\<open>range\<close> visits the map, which Go leaves unspecified: the theorems hold for
  every order.
\<close>

datatype 'f any =
    VNil
  | VBool bool
  | VFloat64 'f
  | VInt int
  | VString string
  | VSlice "'f any list"
  | VMap "(string \<times> 'f any) list"
  | VMapSlice "(string \<times> 'f any) list list"
  | VStrings "string list"
  | VInts "int list"

type_synonym 'f gomap = "(string \<times> 'f any) list"

text \<open>Well-formed maps have distinct keys, at every level.\<close>

fun wf_any :: "'f any \<Rightarrow> bool"
  and wf_map :: "'f gomap \<Rightarrow> bool"
  and wf_anys :: "'f any list \<Rightarrow> bool"
  and wf_maps :: "'f gomap list \<Rightarrow> bool" where
  "wf_any (VSlice xs) = wf_anys xs"
| "wf_any (VMap m) = wf_map m"
| "wf_any (VMapSlice ms) = wf_maps ms"
| "wf_any VNil = True"
| "wf_any (VBool b) = True"
| "wf_any (VFloat64 x) = True"
| "wf_any (VInt i) = True"
| "wf_any (VString s) = True"
| "wf_any (VStrings ss) = True"
| "wf_any (VInts is) = True"
| "wf_map [] = True"
| "wf_map (kv # m) = (fst kv \<notin> fst ` set m \<and> wf_any (snd kv) \<and> wf_map m)"
| "wf_anys [] = True"
| "wf_anys (x # xs) = (wf_any x \<and> wf_anys xs)"
| "wf_maps [] = True"
| "wf_maps (m # ms) = (wf_map m \<and> wf_maps ms)"

section \<open>Decimal integers\<close>

text \<open>\<^verbatim>\<open>strconv.Itoa\<close> and the verb \<^verbatim>\<open>%d\<close>: the decimal digits, with a minus sign.\<close>

definition digit_char :: "nat \<Rightarrow> char" where
  "digit_char d = ''0123456789'' ! d"

fun digits :: "nat \<Rightarrow> string" where
  "digits n = (if n < 10 then [digit_char n] else digits (n div 10) @ [digit_char (n mod 10)])"

declare digits.simps [simp del]

definition Itoa :: "int \<Rightarrow> string" where
  "Itoa i = (if i < 0 then CHR ''-'' # digits (nat (- i)) else digits (nat i))"

text \<open>\<^verbatim>\<open>strings.Join\<close>.\<close>

fun Join :: "string list \<Rightarrow> string \<Rightarrow> string" where
  "Join [] sep = []"
| "Join [x] sep = x"
| "Join (x # y # xs) sep = x @ sep @ Join (y # xs) sep"

section \<open>The field rewriter\<close>

text \<open>
  What \<^verbatim>\<open>t.Fatalf\<close> and \<^verbatim>\<open>t.Fatal\<close> report before they end the test. The rewriter's
  messages carry the dotted path of the key (\<^verbatim>\<open>strings.Join(append(parents, k), ".")\<close>).
\<close>

datatype failure =
    CouldNotRewriteMap string
  | CouldNotRewriteArrayMap string
  | CouldNotRewriteArrayMapLen nat nat string
  | ResponseIsNotJSON
  | JSONError
  | Unsupported
  | IndexOutOfRange
  | OutOfFuel
  | DumpError
  | FileError string

text \<open>
  \<^verbatim>\<open>rewriteMap(t, base, overwrite, parents...)\<close>. The Go function changes \<^verbatim>\<open>base\<close> in
  place and returns nothing, or ends the test in \<^verbatim>\<open>t.Fatalf\<close>; the model returns the new
  \<^verbatim>\<open>base\<close> or the failure. The second argument lists the entries of \<^verbatim>\<open>overwrite\<close> in
  the order the \<^verbatim>\<open>range\<close> loop visits them. A nested map of \<^verbatim>\<open>base\<close> is changed through
  the reference \<^verbatim>\<open>base[k]\<close> holds, so the model stores the rewritten map back under \<^verbatim>\<open>k\<close>.
  \<^verbatim>\<open>rewriteElems\<close> is the inner loop \<^verbatim>\<open>for i, vv := range v\<close>: it walks \<^verbatim>\<open>v\<close> and \<^verbatim>\<open>sub\<close>
  together from index \<^verbatim>\<open>i\<close> on. It runs only once the lengths are known equal; reading
  \<^verbatim>\<open>sub[i]\<close> past the end would be Go's index panic.
\<close>

function rewriteMap :: "'f gomap \<Rightarrow> 'f gomap \<Rightarrow> string list \<Rightarrow> failure + 'f gomap"
  and rewriteElems :: "'f any list \<Rightarrow> 'f gomap list \<Rightarrow> string \<Rightarrow> nat \<Rightarrow> string list
      \<Rightarrow> failure + 'f any list" where
  "rewriteMap base [] parents = Inr base"
| "rewriteMap base ((k, v) # overwrite) parents =
     (case map_of base k of
        None \<Rightarrow> rewriteMap base overwrite parents
      | Some old \<Rightarrow>
          (case v of
             VMap ov \<Rightarrow>
               (case old of
                  VMap sub \<Rightarrow>
                    (case rewriteMap sub ov (parents @ [k]) of
                       Inl e \<Rightarrow> Inl e
                     | Inr sub' \<Rightarrow> rewriteMap (AList.update k (VMap sub') base) overwrite parents)
                | _ \<Rightarrow> Inl (CouldNotRewriteMap (Join (parents @ [k]) ''.'')))
           | VMapSlice ovs \<Rightarrow>
               (case old of
                  VSlice sub \<Rightarrow>
                    if length sub \<noteq> length ovs
                    then Inl (CouldNotRewriteArrayMapLen (length sub) (length ovs)
                                (Join (parents @ [k]) ''.''))
                    else (case rewriteElems sub ovs k 0 parents of
                            Inl e \<Rightarrow> Inl e
                          | Inr sub' \<Rightarrow>
                              rewriteMap (AList.update k (VSlice sub') base) overwrite parents)
                | _ \<Rightarrow> Inl (CouldNotRewriteArrayMap (Join (parents @ [k]) ''.'')))
           | _ \<Rightarrow> rewriteMap (AList.update k v base) overwrite parents))"
| "rewriteElems sub [] k i parents = Inr sub"
| "rewriteElems [] (vv # v) k i parents = Inl IndexOutOfRange"
| "rewriteElems (s # sub) (vv # v) k i parents =
     (case s of
        VMap sub2 \<Rightarrow>
          (case rewriteMap sub2 vv (parents @ [k @ ''#'' @ Itoa (int i)]) of
             Inl e \<Rightarrow> Inl e
           | Inr sub2' \<Rightarrow>
               (case rewriteElems sub v k (Suc i) parents of
                  Inl e \<Rightarrow> Inl e
                | Inr sub' \<Rightarrow> Inr (VMap sub2' # sub')))
      | _ \<Rightarrow> Inl (CouldNotRewriteArrayMap (Join (parents @ [k @ ''#'' @ Itoa (int i)]) ''.'')))"
  by pat_completeness auto
termination
  by (relation "measure (\<lambda>x. case x of
        Inl (base, ov, ps) \<Rightarrow> size_list (size_prod (\<lambda>_. 0) size) ov
      | Inr (sub, ovs, k, i, ps) \<Rightarrow> size_list (size_list (size_prod (\<lambda>_. 0) size)) ovs)")
     auto

text \<open>
  The \<^verbatim>\<open>default\<close> branch of the type switch takes every dynamic type but
  \<^verbatim>\<open>map[string]any\<close> and \<^verbatim>\<open>[]map[string]any\<close>.
\<close>

fun literal :: "'f any \<Rightarrow> bool" where
  "literal (VMap ov) = False"
| "literal (VMapSlice ovs) = False"
| "literal v = True"

section \<open>The package \<^verbatim>\<open>encoding/json\<close>\<close>

text \<open>
  \<^verbatim>\<open>indentJSON\<close>, \<^verbatim>\<open>ModifyJSON\<close> and \<^verbatim>\<open>PrettyJSON\<close> call \<^verbatim>\<open>json.Unmarshal\<close>,
  \<^verbatim>\<open>json.NewDecoder(..).Decode\<close>, \<^verbatim>\<open>json.MarshalIndent\<close> and \<^verbatim>\<open>json.NewEncoder(..).Encode\<close> of
  Go's standard library, which is no part of the repository. The library below takes the
  four as a parameter. Its target is always \<^verbatim>\<open>var tmp map[string]any\<close>, so a decoder is a
  function from the bytes to the map (\<open>None\<close> is the nil map, which \<^verbatim>\<open>null\<close> decodes to) or
  to an error, and an encoder a function from the map to the bytes or to an error. The
  library passes an error to \<^verbatim>\<open>t.Fatal\<close> and never looks at it.
\<close>

record 'f encoding_json =
  json_Unmarshal :: "string \<Rightarrow> failure + 'f gomap option"
  json_Decode :: "string \<Rightarrow> failure + 'f gomap option"
  json_MarshalIndent :: "'f gomap option \<Rightarrow> failure + string"
  json_Encode :: "'f gomap option \<Rightarrow> failure + string"


section \<open>A model of the package on a fragment of JSON\<close>

text \<open>
  For the runs on concrete bytes the theory needs an \<open>encoding_json\<close> to compute with. This
  section models the four functions on a fragment of JSON, byte for byte: objects, arrays,
  \<^verbatim>\<open>true\<close>, \<^verbatim>\<open>false\<close>, \<^verbatim>\<open>null\<close>, strings of ASCII bytes with their escapes, and numbers written
  as integers. Outside the fragment (a fraction or an exponent, the number \<^verbatim>\<open>-0\<close>, a byte
  above \<^verbatim>\<open>0x7F\<close>, a \<^verbatim>\<open>\u\<close> escape above \<^verbatim>\<open>\u007f\<close>, printing a number of magnitude \<open>2\<^sup>5\<^sup>3\<close> or
  more, printing the bytes \<^verbatim>\<open>0x08\<close> and \<^verbatim>\<open>0x0C\<close>, whose escape depends on the Go release) the
  model answers \<open>Unsupported\<close>, where the package has an answer of its own: the model is
  the package on the fragment only. It is used on texts of the fragment: the example
  server's bodies and the bodies of the examples. Every statement about \<^verbatim>\<open>indentJSON\<close>,
  \<^verbatim>\<open>PrettyJSON\<close> and \<^verbatim>\<open>RunTest\<close> that is not about concrete bytes is made for every
  \<open>encoding_json\<close>. Every other error of the package is the one failure \<open>JSONError\<close>.

  A decoded \<^verbatim>\<open>float64\<close> is represented by its value, an integer: \<open>VFloat64 n\<close> is the
  \<^verbatim>\<open>float64\<close> equal to \<open>n\<close>.
\<close>

type_synonym json = "int any"

type_synonym jsonmap = "int gomap"

abbreviation (input) dquote :: char where "dquote \<equiv> CHR 0x22"
abbreviation (input) backslash :: char where "backslash \<equiv> CHR 0x5C"
abbreviation (input) newline :: char where "newline \<equiv> CHR 0x0A"

subsection \<open>Decoding\<close>

definition isSpace :: "char \<Rightarrow> bool" where
  "isSpace c = (c = CHR '' '' \<or> c = CHR 0x09 \<or> c = CHR 0x0D \<or> c = CHR 0x0A)"

definition skip_ws :: "string \<Rightarrow> string" where
  "skip_ws s = dropWhile isSpace s"

definition isDigit :: "char \<Rightarrow> bool" where
  "isDigit c = (48 \<le> (of_char c :: nat) \<and> (of_char c :: nat) \<le> 57)"

definition digits_val :: "string \<Rightarrow> nat" where
  "digits_val ds = foldl (\<lambda>a c. 10 * a + (of_char c - 48)) 0 ds"

text \<open>
  \<^verbatim>\<open>strconv.ParseFloat\<close> on an integer literal: the nearest \<^verbatim>\<open>float64\<close>, ties to the even
  mantissa of 53 bits; a literal that rounds to \<open>2\<^sup>1\<^sup>0\<^sup>2\<^sup>4\<close> is out of range.
\<close>

fun bit_length :: "nat \<Rightarrow> nat" where
  "bit_length n = (if n = 0 then 0 else Suc (bit_length (n div 2)))"

declare bit_length.simps [simp del]

definition round_float64 :: "nat \<Rightarrow> nat option" where
  "round_float64 a =
     (if a < 2 ^ 53 then Some a
      else let s = bit_length a - 53;
               m = a div 2 ^ s;
               r = a mod 2 ^ s;
               half = 2 ^ (s - 1);
               m' = (if half < r \<or> (r = half \<and> odd m) then m + 1 else m);
               x = m' * 2 ^ s
           in if 2 ^ 1024 \<le> x then None else Some x)"

text \<open>
  A number literal: an optional minus sign, then \<^verbatim>\<open>0\<close> or a digit from 1 to 9 and any
  digits. A fraction or an exponent after it, and negative zero, are outside the model.
\<close>

definition number_digits :: "string \<Rightarrow> string" where
  "number_digits s = (if s \<noteq> [] \<and> hd s = CHR ''0'' then ''0'' else takeWhile isDigit s)"

definition parse_unsigned :: "bool \<Rightarrow> string \<Rightarrow> failure + (json \<times> string)" where
  "parse_unsigned neg s =
     (let ds = number_digits s;
          rest = drop (length ds) s
      in if ds = [] then Inl JSONError
         else if rest \<noteq> [] \<and> (hd rest = CHR ''.'' \<or> hd rest = CHR ''e'' \<or> hd rest = CHR ''E'')
           then Inl Unsupported
         else if neg \<and> digits_val ds = 0 then Inl Unsupported
         else (case round_float64 (digits_val ds) of
                 None \<Rightarrow> Inl JSONError
               | Some a \<Rightarrow> Inr (VFloat64 (if neg then - int a else int a), rest)))"

definition parse_number :: "string \<Rightarrow> failure + (json \<times> string)" where
  "parse_number s =
     (if s \<noteq> [] \<and> hd s = CHR ''-'' then parse_unsigned True (tl s)
      else parse_unsigned False s)"

text \<open>The escapes of a string literal.\<close>

definition unescape :: "char \<Rightarrow> char option" where
  "unescape e =
     (if e = dquote \<or> e = backslash \<or> e = CHR ''/'' then Some e
      else if e = CHR ''b'' then Some (CHR 0x08)
      else if e = CHR ''f'' then Some (CHR 0x0C)
      else if e = CHR ''n'' then Some (CHR 0x0A)
      else if e = CHR ''r'' then Some (CHR 0x0D)
      else if e = CHR ''t'' then Some (CHR 0x09)
      else None)"

definition hex_val :: "char \<Rightarrow> nat option" where
  "hex_val c =
     (let n = (of_char c :: nat)
      in if 48 \<le> n \<and> n \<le> 57 then Some (n - 48)
         else if 97 \<le> n \<and> n \<le> 102 then Some (n - 87)
         else if 65 \<le> n \<and> n \<le> 70 then Some (n - 55)
         else None)"

definition hex4 :: "char \<Rightarrow> char \<Rightarrow> char \<Rightarrow> char \<Rightarrow> nat option" where
  "hex4 a b c d =
     (case (hex_val a, hex_val b, hex_val c, hex_val d) of
        (Some x, Some y, Some z, Some w) \<Rightarrow> Some (((x * 16 + y) * 16 + z) * 16 + w)
      | _ \<Rightarrow> None)"

text \<open>
  The bytes of a string literal after its opening quote, up to the closing quote: the
  string, and the input after the quote.
\<close>

fun parse_string :: "string \<Rightarrow> string \<Rightarrow> failure + (string \<times> string)" where
  "parse_string [] acc = Inl JSONError"
| "parse_string (c # cs) acc =
     (if c = dquote then Inr (acc, cs)
      else if c = backslash then
        (case cs of
           [] \<Rightarrow> Inl JSONError
         | e # cs1 \<Rightarrow>
             if e = CHR ''u'' then
               (case cs1 of
                  h1 # h2 # h3 # h4 # cs2 \<Rightarrow>
                    (case hex4 h1 h2 h3 h4 of
                       None \<Rightarrow> Inl JSONError
                     | Some n \<Rightarrow>
                         if n < 128 then parse_string cs2 (acc @ [char_of n])
                         else Inl Unsupported)
                | _ \<Rightarrow> Inl JSONError)
             else
               (case unescape e of
                  None \<Rightarrow> Inl JSONError
                | Some x \<Rightarrow> parse_string cs1 (acc @ [x])))
      else if (of_char c :: nat) < 32 then Inl JSONError
      else if 128 \<le> (of_char c :: nat) then Inl Unsupported
      else parse_string cs (acc @ [c]))"

text \<open>
  A decoded object is kept sorted by key: a Go map has no order of its own. \<open>put k v m\<close>
  is \<^verbatim>\<open>m[k] = v\<close>, so of two members with one key the later wins.
\<close>

fun put :: "string \<Rightarrow> 'f any \<Rightarrow> 'f gomap \<Rightarrow> 'f gomap" where
  "put k v [] = [(k, v)]"
| "put k v ((k', v') # m) =
     (if k < k' then (k, v) # (k', v') # m
      else if k = k' then (k, v) # m
      else (k', v') # put k v m)"

text \<open>The scanner refuses more than 10000 open arrays and objects.\<close>

definition maxNestingDepth :: nat where
  "maxNestingDepth = 10000"

text \<open>
  The decoder proper. \<open>parse_value n d s\<close> reads one value at the head of \<open>s\<close>, inside \<open>d\<close>
  open arrays and objects, and returns it with the rest of the input. \<open>parse_members\<close>
  reads the members of an object from its first key to the closing brace,
  \<open>parse_elements\<close> the elements of an array to the closing bracket. The first argument
  bounds the number of nested calls and exists for termination only: the callers pass
  \<open>fuel\<close>, more than twice the length of the input, which is never used up
  (\<open>OutOfFuel\<close> is not a result of \<open>Unmarshal\<close> or \<open>Decode\<close>).
\<close>

definition fuel :: "string \<Rightarrow> nat" where
  "fuel data = Suc (length data + length data)"

fun parse_value :: "nat \<Rightarrow> nat \<Rightarrow> string \<Rightarrow> failure + (json \<times> string)"
  and parse_members :: "nat \<Rightarrow> nat \<Rightarrow> string \<Rightarrow> jsonmap \<Rightarrow> failure + (jsonmap \<times> string)"
  and parse_elements :: "nat \<Rightarrow> nat \<Rightarrow> string \<Rightarrow> json list \<Rightarrow> failure + (json list \<times> string)"
  where
  "parse_value 0 d s = Inl OutOfFuel"
| "parse_value (Suc n) d [] = Inl JSONError"
| "parse_value (Suc n) d (c # cs) =
     (if c = CHR ''{'' then
        (if maxNestingDepth \<le> d then Inl JSONError
         else if skip_ws cs \<noteq> [] \<and> hd (skip_ws cs) = CHR ''}''
           then Inr (VMap [], tl (skip_ws cs))
         else (case parse_members n (Suc d) (skip_ws cs) [] of
                 Inl e \<Rightarrow> Inl e
               | Inr (m, rest) \<Rightarrow> Inr (VMap m, rest)))
      else if c = CHR ''['' then
        (if maxNestingDepth \<le> d then Inl JSONError
         else if skip_ws cs \<noteq> [] \<and> hd (skip_ws cs) = CHR '']''
           then Inr (VSlice [], tl (skip_ws cs))
         else (case parse_elements n (Suc d) (skip_ws cs) [] of
                 Inl e \<Rightarrow> Inl e
               | Inr (xs, rest) \<Rightarrow> Inr (VSlice xs, rest)))
      else if c = dquote then
        (case parse_string cs [] of
           Inl e \<Rightarrow> Inl e
         | Inr (str, rest) \<Rightarrow> Inr (VString str, rest))
      else if c = CHR ''-'' \<or> isDigit c then parse_number (c # cs)
      else if take 4 (c # cs) = ''true'' then Inr (VBool True, drop 4 (c # cs))
      else if take 5 (c # cs) = ''false'' then Inr (VBool False, drop 5 (c # cs))
      else if take 4 (c # cs) = ''null'' then Inr (VNil, drop 4 (c # cs))
      else Inl JSONError)"
| "parse_members 0 d s acc = Inl OutOfFuel"
| "parse_members (Suc n) d [] acc = Inl JSONError"
| "parse_members (Suc n) d (c # cs) acc =
     (if c \<noteq> dquote then Inl JSONError
      else (case parse_string cs [] of
              Inl e \<Rightarrow> Inl e
            | Inr (key, rest) \<Rightarrow>
                if skip_ws rest = [] \<or> hd (skip_ws rest) \<noteq> CHR '':'' then Inl JSONError
                else (case parse_value n d (skip_ws (tl (skip_ws rest))) of
                        Inl e \<Rightarrow> Inl e
                      | Inr (v, rest1) \<Rightarrow>
                          if skip_ws rest1 = [] then Inl JSONError
                          else if hd (skip_ws rest1) = CHR '','' then
                            parse_members n d (skip_ws (tl (skip_ws rest1))) (put key v acc)
                          else if hd (skip_ws rest1) = CHR ''}'' then
                            Inr (put key v acc, tl (skip_ws rest1))
                          else Inl JSONError)))"
| "parse_elements 0 d s acc = Inl OutOfFuel"
| "parse_elements (Suc n) d s acc =
     (case parse_value n d s of
        Inl e \<Rightarrow> Inl e
      | Inr (v, rest1) \<Rightarrow>
          if skip_ws rest1 = [] then Inl JSONError
          else if hd (skip_ws rest1) = CHR '','' then
            parse_elements n d (skip_ws (tl (skip_ws rest1))) (acc @ [v])
          else if hd (skip_ws rest1) = CHR '']'' then
            Inr (acc @ [v], tl (skip_ws rest1))
          else Inl JSONError)"

text \<open>
  \<^verbatim>\<open>json.Unmarshal(data, &tmp)\<close> with \<^verbatim>\<open>var tmp map[string]any\<close>: the whole input is one
  value with white space around it, and the value is an object, or \<^verbatim>\<open>null\<close>, which leaves
  \<^verbatim>\<open>tmp\<close> the nil map (\<open>None\<close>).
\<close>

definition Unmarshal :: "string \<Rightarrow> failure + jsonmap option" where
  "Unmarshal data =
     (case parse_value (fuel data) 0 (skip_ws data) of
        Inl e \<Rightarrow> Inl e
      | Inr (v, rest) \<Rightarrow>
          if skip_ws rest \<noteq> [] then Inl JSONError
          else (case v of
                  VMap m \<Rightarrow> Inr (Some m)
                | VNil \<Rightarrow> Inr None
                | _ \<Rightarrow> Inl JSONError))"

text \<open>
  \<^verbatim>\<open>json.NewDecoder(r.Body).Decode(&tmp)\<close>: the first value of the stream; what follows it
  is not read.
\<close>

definition Decode :: "string \<Rightarrow> failure + jsonmap option" where
  "Decode data =
     (case parse_value (fuel data) 0 (skip_ws data) of
        Inl e \<Rightarrow> Inl e
      | Inr (v, rest) \<Rightarrow>
          (case v of
             VMap m \<Rightarrow> Inr (Some m)
           | VNil \<Rightarrow> Inr None
           | _ \<Rightarrow> Inl JSONError))"

subsection \<open>Encoding\<close>

text \<open>
  A string is written between quotes. Quote and backslash take a backslash, line feed,
  carriage return and tab their short escape, the other control bytes and the characters
  \<^verbatim>\<open><\<close>, \<^verbatim>\<open>>\<close>, \<^verbatim>\<open>&\<close> the escape \<^verbatim>\<open>\u00XX\<close> (\<^verbatim>\<open>Marshal\<close> and \<^verbatim>\<open>Encoder\<close> escape HTML unless told
  otherwise, and the library does not tell them).
\<close>

definition hex_digit :: "nat \<Rightarrow> char" where
  "hex_digit n = ''0123456789abcdef'' ! n"

definition encode_char :: "char \<Rightarrow> string" where
  "encode_char c =
     (if c = dquote \<or> c = backslash then [backslash, c]
      else if c = CHR 0x0A then [backslash, CHR ''n'']
      else if c = CHR 0x0D then [backslash, CHR ''r'']
      else if c = CHR 0x09 then [backslash, CHR ''t'']
      else if (of_char c :: nat) < 32 \<or> c = CHR ''<'' \<or> c = CHR ''>'' \<or> c = CHR ''&''
        then [backslash, CHR ''u'', CHR ''0'', CHR ''0'',
              hex_digit ((of_char c :: nat) div 16), hex_digit ((of_char c :: nat) mod 16)]
      else [c])"

definition encode_string :: "string \<Rightarrow> string" where
  "encode_string s = dquote # concat (map encode_char s) @ [dquote]"

text \<open>The bytes the model prints: ASCII, but for \<^verbatim>\<open>0x08\<close> and \<^verbatim>\<open>0x0C\<close>.\<close>

definition char_ok :: "char \<Rightarrow> bool" where
  "char_ok c = ((of_char c :: nat) < 128 \<and> c \<noteq> CHR 0x08 \<and> c \<noteq> CHR 0x0C)"

text \<open>
  The values the model prints. A slice that an overwrite holds may be nil, which the
  package prints as \<^verbatim>\<open>null\<close>, or empty, which it prints as \<^verbatim>\<open>[]\<close>; \<^verbatim>\<open>rewriteMap\<close> does not
  tell the two apart and the values above do not either, so the model does not print an
  empty \<open>VMapSlice\<close>, \<open>VStrings\<close> or \<open>VInts\<close>. \<open>VSlice []\<close> is the empty \<^verbatim>\<open>[]any\<close> that the
  decoder returns for \<^verbatim>\<open>[]\<close>.
\<close>

fun supported :: "json \<Rightarrow> bool"
  and supported_map :: "jsonmap \<Rightarrow> bool"
  and supported_list :: "json list \<Rightarrow> bool"
  and supported_maps :: "jsonmap list \<Rightarrow> bool" where
  "supported VNil = True"
| "supported (VBool b) = True"
| "supported (VFloat64 n) = (\<bar>n\<bar> < 2 ^ 53)"
| "supported (VInt i) = True"
| "supported (VString s) = list_all char_ok s"
| "supported (VSlice xs) = supported_list xs"
| "supported (VMap m) = supported_map m"
| "supported (VMapSlice ms) = (ms \<noteq> [] \<and> supported_maps ms)"
| "supported (VStrings ss) = (ss \<noteq> [] \<and> list_all (list_all char_ok) ss)"
| "supported (VInts ns) = (ns \<noteq> [])"
| "supported_map [] = True"
| "supported_map (kv # m) = (list_all char_ok (fst kv) \<and> supported (snd kv) \<and> supported_map m)"
| "supported_list [] = True"
| "supported_list (x # xs) = (supported x \<and> supported_list xs)"
| "supported_maps [] = True"
| "supported_maps (m # ms) = (supported_map m \<and> supported_maps ms)"

text \<open>
  The layout. \<open>pretty\<close> is \<^verbatim>\<open>MarshalIndent(v, "", "  ")\<close>: a line feed and two spaces for
  each open array or object before every member and before the closing bracket of a
  container that is not empty, and a space after the colon. Without it the encoding is
  the compact one of \<^verbatim>\<open>Marshal\<close>.
\<close>

definition nl :: "bool \<Rightarrow> nat \<Rightarrow> string" where
  "nl pretty d = (if pretty then newline # replicate (2 * d) CHR '' '' else [])"

definition colon :: "bool \<Rightarrow> string" where
  "colon pretty = (if pretty then '': '' else '':'')"

definition object :: "bool \<Rightarrow> nat \<Rightarrow> string list \<Rightarrow> string" where
  "object pretty d items =
     (if items = [] then ''{}''
      else ''{'' @ nl pretty (Suc d) @ Join items (CHR '','' # nl pretty (Suc d))
             @ nl pretty d @ ''}'')"

definition array :: "bool \<Rightarrow> nat \<Rightarrow> string list \<Rightarrow> string" where
  "array pretty d items =
     (if items = [] then ''[]''
      else ''['' @ nl pretty (Suc d) @ Join items (CHR '','' # nl pretty (Suc d))
             @ nl pretty d @ '']'')"

text \<open>
  \<open>encode pretty d v\<close> is the text of \<open>v\<close> inside \<open>d\<close> open containers. The members of a
  map are encoded, then sorted by key (bytewise, as Go compares strings), then joined.
\<close>

fun encode :: "bool \<Rightarrow> nat \<Rightarrow> json \<Rightarrow> string"
  and encode_members :: "bool \<Rightarrow> nat \<Rightarrow> jsonmap \<Rightarrow> (string \<times> string) list"
  and encode_elements :: "bool \<Rightarrow> nat \<Rightarrow> json list \<Rightarrow> string list"
  and encode_objects :: "bool \<Rightarrow> nat \<Rightarrow> jsonmap list \<Rightarrow> string list" where
  "encode p d VNil = ''null''"
| "encode p d (VBool b) = (if b then ''true'' else ''false'')"
| "encode p d (VFloat64 n) = Itoa n"
| "encode p d (VInt i) = Itoa i"
| "encode p d (VString s) = encode_string s"
| "encode p d (VSlice xs) = array p d (encode_elements p (Suc d) xs)"
| "encode p d (VMap m) = object p d (map snd (sort_key fst (encode_members p (Suc d) m)))"
| "encode p d (VMapSlice ms) = array p d (encode_objects p (Suc d) ms)"
| "encode p d (VStrings ss) = array p d (map encode_string ss)"
| "encode p d (VInts ns) = array p d (map Itoa ns)"
| "encode_members p d [] = []"
| "encode_members p d (kv # m) =
     (fst kv, encode_string (fst kv) @ colon p @ encode p d (snd kv)) # encode_members p d m"
| "encode_elements p d [] = []"
| "encode_elements p d (x # xs) = encode p d x # encode_elements p d xs"
| "encode_objects p d [] = []"
| "encode_objects p d (m # ms) =
     object p d (map snd (sort_key fst (encode_members p (Suc d) m))) # encode_objects p d ms"

text \<open>
  \<^verbatim>\<open>json.Marshal(&tmp)\<close> and \<^verbatim>\<open>json.MarshalIndent(&tmp, "", "  ")\<close> for
  \<^verbatim>\<open>tmp map[string]any\<close>: the nil map is \<^verbatim>\<open>null\<close>.
\<close>

definition Marshal :: "bool \<Rightarrow> jsonmap option \<Rightarrow> failure + string" where
  "Marshal pretty tmp =
     (case tmp of
        None \<Rightarrow> Inr ''null''
      | Some m \<Rightarrow> if supported (VMap m) then Inr (encode pretty 0 (VMap m)) else Inl Unsupported)"

definition MarshalIndent :: "jsonmap option \<Rightarrow> failure + string" where
  "MarshalIndent tmp = Marshal True tmp"

text \<open>\<^verbatim>\<open>json.NewEncoder(body).Encode(&tmp)\<close>: the compact encoding and a line feed.\<close>

definition Encode :: "jsonmap option \<Rightarrow> failure + string" where
  "Encode tmp = (case Marshal False tmp of Inl e \<Rightarrow> Inl e | Inr s \<Rightarrow> Inr (s @ [newline]))"

text \<open>The model as a package.\<close>

definition json_model :: "int encoding_json" where
  "json_model =
     \<lparr>json_Unmarshal = Unmarshal, json_Decode = Decode,
      json_MarshalIndent = MarshalIndent, json_Encode = Encode\<rparr>"

section \<open>The library\<close>

text \<open>
  \<^verbatim>\<open>indentJSON(t, body)\<close>. Both errors end the test in \<^verbatim>\<open>t.Fatal(err)\<close>; the model returns
  the failure and the caller stops the test.
\<close>

definition indentJSON :: "'f encoding_json \<Rightarrow> string \<Rightarrow> failure + string" where
  "indentJSON lib body =
     (case json_Unmarshal lib body of
        Inl e \<Rightarrow> Inl e
      | Inr tmp \<Rightarrow> json_MarshalIndent lib tmp)"

subsection \<open>Decoded values\<close>


text \<open>What may follow a value in the encoder's output: nothing, or a byte that ends a number.\<close>

definition delim :: "string \<Rightarrow> bool" where
  "delim rest = (rest = [] \<or> hd rest = CHR '','' \<or> hd rest = CHR '']'' \<or> hd rest = CHR ''}''
                  \<or> hd rest = newline)"

text \<open>A text that starts with a byte of a value (no white space, no punctuation).\<close>

definition starts :: "string \<Rightarrow> bool" where
  "starts s = (s \<noteq> [] \<and> \<not> isSpace (hd s) \<and> hd s \<noteq> CHR '']'' \<and> hd s \<noteq> CHR ''}''
                \<and> hd s \<noteq> CHR '','' \<and> hd s \<noteq> CHR '':'')"

subsection \<open>Requests, responses and the test handle\<close>

text \<open>
  An HTTP header and a URL query are maps from a key to its values; \<^verbatim>\<open>Get\<close> returns the
  first value of the key, or the empty string. The library asks for \<^verbatim>\<open>Content-Type\<close>,
  which is the canonical form of the key already.
\<close>

type_synonym keyvals = "(string \<times> string list) list"

definition Get :: "keyvals \<Rightarrow> string \<Rightarrow> string" where
  "Get h key = (case map_of h key of None \<Rightarrow> [] | Some [] \<Rightarrow> [] | Some (v # vs) \<Rightarrow> v)"

definition HasPrefix :: "string \<Rightarrow> string \<Rightarrow> bool" where
  "HasPrefix s pre = (take (length pre) s = pre)"

text \<open>
  \<open>URL\<close> is the text \<^verbatim>\<open>%s\<close> prints for \<^verbatim>\<open>r.URL\<close>. The body of a response is the bytes
  still to be read from \<^verbatim>\<open>r.Body\<close>: every function of the library that reads the body
  stores a reader of the bytes it goes on with (\<^verbatim>\<open>drainBody\<close>, \<^verbatim>\<open>io.NopCloser\<close>).
\<close>

record request =
  Method :: string
  URL :: string
  Path :: string
  Query :: keyvals
  RequestBody :: string

record response =
  StatusCode :: int
  Header :: keyvals
  Body :: string

text \<open>
  What a test writes to its log, one constructor for each format string of the library.
\<close>

datatype entry =
    LogRequest string string
  | ErrStatusCode int int
  | LogRawResponse string string
  | ErrMismatch string string
  | LogGolden string
  | FatalFailure failure
  | LogText string

text \<open>
  \<^verbatim>\<open>*testing.T\<close>: the name of the test, whether it has failed, and its log. \<^verbatim>\<open>t.Logf\<close> adds
  to the log, \<^verbatim>\<open>t.Errorf\<close> also marks the test failed and lets it go on; \<^verbatim>\<open>t.Fatal\<close> does
  what \<^verbatim>\<open>t.Errorf\<close> does and then stops the test's goroutine, which the callers below show
  by returning at once.
\<close>

record testing_T =
  Name :: string
  failed :: bool
  logs :: "entry list"

definition Logf :: "entry \<Rightarrow> testing_T \<Rightarrow> testing_T" where
  "Logf e t = t\<lparr>logs := logs t @ [e]\<rparr>"

definition Errorf :: "entry \<Rightarrow> testing_T \<Rightarrow> testing_T" where
  "Errorf e t = t\<lparr>failed := True, logs := logs t @ [e]\<rparr>"

definition Fatal :: "failure \<Rightarrow> testing_T \<Rightarrow> testing_T" where
  "Fatal e t = t\<lparr>failed := True, logs := logs t @ [FatalFailure e]\<rparr>"

subsection \<open>Response filters\<close>

text \<open>
  \<^verbatim>\<open>type ResponseFilter func(t *testing.T, r *http.Response)\<close>. A filter changes the
  response in place and may log, mark the test failed, and stop it. The model of a filter
  is a function of the response it is given: it returns what it logged, whether it marked
  the test failed, and the response it leaves, or \<open>None\<close> when it stopped the test.
\<close>

datatype filtered = Filtered (logged: "entry list") (marked: bool) (left: "response option")

type_synonym ResponseFilter = "response \<Rightarrow> filtered"

definition continue :: "response \<Rightarrow> filtered" where
  "continue r = Filtered [] False (Some r)"

definition fatal :: "failure \<Rightarrow> filtered" where
  "fatal e = Filtered [FatalFailure e] True None"

text \<open>\<^verbatim>\<open>PrettyJSON(t, r)\<close>.\<close>

definition PrettyJSON :: "'f encoding_json \<Rightarrow> ResponseFilter" where
  "PrettyJSON lib r =
     (if StatusCode r = 204 then continue r
      else if \<not> HasPrefix (Get (Header r) ''Content-Type'') ''application/json''
        then fatal ResponseIsNotJSON
      else (case indentJSON lib (Body r) of
              Inl e \<Rightarrow> fatal e
            | Inr body \<Rightarrow> continue (r\<lparr>Body := body\<rparr>)))"

text \<open>
  \<^verbatim>\<open>ModifyJSON(overwrite)\<close>. On the nil map, which \<^verbatim>\<open>null\<close> decodes to, \<^verbatim>\<open>rewriteMap\<close> finds
  no key and leaves it nil.
\<close>

definition ModifyJSON :: "'f encoding_json \<Rightarrow> 'f gomap \<Rightarrow> ResponseFilter" where
  "ModifyJSON lib overwrite r =
     (case json_Decode lib (Body r) of
        Inl e \<Rightarrow> fatal e
      | Inr tmp \<Rightarrow>
          (case (case tmp of
                   None \<Rightarrow> Inr None
                 | Some base \<Rightarrow>
                     (case rewriteMap base overwrite [] of
                        Inl e \<Rightarrow> Inl e
                      | Inr base' \<Rightarrow> Inr (Some base'))) of
             Inl e \<Rightarrow> fatal e
           | Inr tmp' \<Rightarrow>
               (case json_Encode lib tmp' of
                  Inl e \<Rightarrow> fatal e
                | Inr body \<Rightarrow> continue (r\<lparr>Body := body\<rparr>))))"

text \<open>The loop \<^verbatim>\<open>for _, f := range filters { f(t, got) }\<close>.\<close>

fun runFilters :: "ResponseFilter list \<Rightarrow> testing_T \<Rightarrow> response \<Rightarrow> testing_T \<times> response option"
  where
  "runFilters [] t got = (t, Some got)"
| "runFilters (f # filters) t got =
     (let t' = t\<lparr>failed := failed t \<or> marked (f got), logs := logs t @ logged (f got)\<rparr>
      in case left (f got) of
           None \<Rightarrow> (t', None)
         | Some got' \<Rightarrow> runFilters filters t' got')"

subsection \<open>The golden store\<close>

text \<open>
  The files by name, and the names on which the operating system refuses an operation
  (a permission, a full disk). \<^verbatim>\<open>os.MkdirAll\<close> changes no file.
\<close>

record filesys =
  files :: "string \<Rightarrow> string option"
  denied :: "string set"

definition os_MkdirAll :: "string \<Rightarrow> filesys \<Rightarrow> failure + filesys" where
  "os_MkdirAll dir fs = (if dir \<in> denied fs then Inl (FileError dir) else Inr fs)"

definition os_WriteFile :: "string \<Rightarrow> string \<Rightarrow> filesys \<Rightarrow> failure + filesys" where
  "os_WriteFile name data fs =
     (if name \<in> denied fs then Inl (FileError name)
      else Inr (fs\<lparr>files := (files fs)(name \<mapsto> data)\<rparr>))"

definition os_ReadFile :: "string \<Rightarrow> filesys \<Rightarrow> failure + string" where
  "os_ReadFile name fs =
     (if name \<in> denied fs then Inl (FileError name)
      else (case files fs name of None \<Rightarrow> Inl (FileError name) | Some data \<Rightarrow> Inr data))"

text \<open>
  What \<^verbatim>\<open>RunTest\<close> takes from outside the library: the registered router (the handler under
  test, run into a recorder), the two flags, the package \<^verbatim>\<open>encoding/json\<close>,
  \<^verbatim>\<open>httputil.DumpResponse\<close>, and \<^verbatim>\<open>filepath.Join\<close> and \<^verbatim>\<open>filepath.Dir\<close>.
\<close>

record 'f env =
  router :: "request \<Rightarrow> response"
  json_lib :: "'f encoding_json"
  dumpRawResponse :: bool
  updateGolden :: bool
  DumpResponse :: "response \<Rightarrow> bool \<Rightarrow> failure + string"
  filepath_Join :: "string \<Rightarrow> string \<Rightarrow> string"
  filepath_Dir :: "string \<Rightarrow> string"

definition goldenFileName :: "'f env \<Rightarrow> string \<Rightarrow> string" where
  "goldenFileName env name = filepath_Join env ''testdata'' (name @ ''.golden'')"

text \<open>
  \<^verbatim>\<open>writeGolden(t, data)\<close> and \<^verbatim>\<open>readGolden(t)\<close>. The last component of \<^verbatim>\<open>writeGolden\<close>'s
  result tells whether the test goes on.
\<close>

definition writeGolden :: "'f env \<Rightarrow> testing_T \<Rightarrow> string \<Rightarrow> filesys \<Rightarrow> testing_T \<times> filesys \<times> bool"
  where
  "writeGolden env t data fs =
     (let filename = goldenFileName env (Name t)
      in case os_MkdirAll (filepath_Dir env filename) fs of
           Inl e \<Rightarrow> (Fatal e t, fs, False)
         | Inr fs1 \<Rightarrow>
             (case os_WriteFile filename data fs1 of
                Inl e \<Rightarrow> (Fatal e t, fs1, False)
              | Inr fs2 \<Rightarrow> (t, fs2, True)))"

definition readGolden :: "'f env \<Rightarrow> testing_T \<Rightarrow> filesys \<Rightarrow> testing_T \<times> string option" where
  "readGolden env t fs =
     (case os_ReadFile (goldenFileName env (Name t)) fs of
        Inl e \<Rightarrow> (Fatal e t, None)
      | Inr data \<Rightarrow> (t, Some data))"

subsection \<open>The test driver\<close>

text \<open>
  The block \<^verbatim>\<open>if *dumpRawResponse { ... }\<close> of \<^verbatim>\<open>RunTest\<close>: the test handle after it, and
  whether the test goes on.
\<close>

definition dumpRaw :: "'f env \<Rightarrow> testing_T \<Rightarrow> response \<Rightarrow> testing_T \<times> bool" where
  "dumpRaw env t got =
     (if \<not> dumpRawResponse env then (t, True)
      else
        (case (if HasPrefix (Get (Header got) ''Content-Type'') ''application/json''
                  \<and> (StatusCode got = 200 \<or> StatusCode got = 201)
               then indentJSON (json_lib env) (Body got) else Inr (Body got)) of
           Inl e \<Rightarrow> (Fatal e t, False)
         | Inr body \<Rightarrow>
             (case DumpResponse env got False of
                Inl e \<Rightarrow> (Fatal e t, False)
              | Inr dump \<Rightarrow> (Logf (LogRawResponse dump body) t, True))))"

text \<open>
  \<^verbatim>\<open>RunTest\<close> from its first line to the check of the status code: the test handle and
  the recorded response. A status code other than \<^verbatim>\<open>want\<close> is reported with \<^verbatim>\<open>t.Errorf\<close>.
\<close>

definition dispatch :: "'f env \<Rightarrow> testing_T \<Rightarrow> request \<Rightarrow> int \<Rightarrow> testing_T \<times> response" where
  "dispatch env t r want =
     (let t1 = Logf (LogRequest (Method r) (URL r)) t;
          got = router env r
      in (if StatusCode got \<noteq> want then Errorf (ErrStatusCode (StatusCode got) want) t1 else t1,
          got))"

text \<open>
  \<^verbatim>\<open>RunTest\<close> from there to \<^verbatim>\<open>httputil.DumpResponse(got, true)\<close>: the test handle, and the
  dump of the filtered response unless the test was stopped.
\<close>

definition serialize ::
  "'f env \<Rightarrow> testing_T \<Rightarrow> response \<Rightarrow> ResponseFilter list \<Rightarrow> testing_T \<times> string option" where
  "serialize env t got filters =
     (case dumpRaw env t got of
        (t1, False) \<Rightarrow> (t1, None)
      | (t1, True) \<Rightarrow>
          (case runFilters filters t1 got of
             (t2, None) \<Rightarrow> (t2, None)
           | (t2, Some got') \<Rightarrow>
               (case DumpResponse env got' True of
                  Inl e \<Rightarrow> (Fatal e t2, None)
                | Inr dump \<Rightarrow> (t2, Some dump))))"

text \<open>
  The last step of \<^verbatim>\<open>RunTest\<close>, from \<^verbatim>\<open>if *updateGolden\<close> to the closing log line: the
  test handle and the files after it, and whether \<^verbatim>\<open>RunTest\<close> returned (\<open>False\<close>: the test
  was stopped). \<^verbatim>\<open>cmp.Diff\<close> of two byte slices is empty exactly when they are equal.
\<close>

definition compareOrUpdate ::
  "'f env \<Rightarrow> filesys \<Rightarrow> testing_T \<Rightarrow> string \<Rightarrow> testing_T \<times> filesys \<times> bool" where
  "compareOrUpdate env fs t dump =
     (if updateGolden env then
        (case writeGolden env t dump fs of
           (t1, fs1, False) \<Rightarrow> (t1, fs1, False)
         | (t1, fs1, True) \<Rightarrow> (Logf (LogGolden (goldenFileName env (Name t1))) t1, fs1, True))
      else
        (case readGolden env t fs of
           (t1, None) \<Rightarrow> (t1, fs, False)
         | (t1, Some golden) \<Rightarrow>
             (let t2 = (if golden \<noteq> dump then Errorf (ErrMismatch golden dump) t1 else t1)
              in (Logf (LogGolden (goldenFileName env (Name t2))) t2, fs, True))))"

text \<open>\<^verbatim>\<open>RunTest(t, r, want, filters...)\<close>.\<close>

definition RunTest ::
  "'f env \<Rightarrow> filesys \<Rightarrow> testing_T \<Rightarrow> request \<Rightarrow> int \<Rightarrow> ResponseFilter list
     \<Rightarrow> testing_T \<times> filesys \<times> bool" where
  "RunTest env fs t r want filters =
     (case dispatch env t r want of
        (t0, got) \<Rightarrow>
          (case serialize env t0 got filters of
             (t1, None) \<Rightarrow> (t1, fs, False)
           | (t1, Some dump) \<Rightarrow> compareOrUpdate env fs t1 dump))"

text \<open>
  \<open>amend fl n e t\<close> is the test handle \<open>t\<close> with the entry \<open>e\<close> put into its log at position
  \<open>n\<close>, marked failed when \<open>fl\<close> holds. It states how two runs differ.
\<close>

definition amend :: "bool \<Rightarrow> nat \<Rightarrow> entry \<Rightarrow> testing_T \<Rightarrow> testing_T" where
  "amend fl n e t =
     t\<lparr>failed := failed t \<or> fl, logs := take n (logs t) @ [e] @ drop n (logs t)\<rparr>"

section \<open>The example server\<close>

text \<open>
  \<^verbatim>\<open>newRouter()\<close> of the example, as the function from a request to the response the
  recorder holds after \<^verbatim>\<open>ServeHTTP\<close>, for request paths in clean form. The first argument
  is the clock, \<^verbatim>\<open>time.Now().Unix()\<close>, an \<^verbatim>\<open>int64\<close>.
\<close>

definition json_header :: keyvals where
  "json_header = [(''Content-Type'', [''application/json''])]"

definition http_Error :: "string \<Rightarrow> int \<Rightarrow> response" where
  "http_Error msg code =
     \<lparr>StatusCode = code,
      Header = [(''Content-Type'', [''text/plain; charset=utf-8'']),
                (''X-Content-Type-Options'', [''nosniff''])],
      Body = msg @ [newline]\<rparr>"

definition newRouter :: "64 word \<Rightarrow> request \<Rightarrow> response" where
  "newRouter now r =
     (if Path r = ''/v1/health'' then
        \<lparr>StatusCode = 200, Header = json_header,
         Body = ''{'' @ [dquote] @ ''hoge'' @ [dquote] @ '':'' @ [dquote] @ ''fuga'' @ [dquote] @ ''}''\<rparr>
      else if Path r = ''/v2/health'' then
        \<lparr>StatusCode = 200, Header = json_header,
         Body = ''{'' @ [dquote] @ ''ping'' @ [dquote] @ '':'' @ [dquote] @ ''pong'' @ [dquote] @ ''}''\<rparr>
      else if Path r = ''/v1/user/1'' then
        (if Method r = ''GET'' then
           (if Get (Query r) ''typ'' = ''exception'' then http_Error ''Server error'' 500
            else if Get (Query r) ''typ'' = ''new'' then
              \<lparr>StatusCode = 200, Header = json_header,
               Body = ''{'' @ [dquote] @ ''name'' @ [dquote] @ '':'' @ [dquote]
                        @ ''Giorno Giovanna'' @ [dquote] @ ''}''\<rparr>
            else
              \<lparr>StatusCode = 200, Header = json_header,
               Body = ''{'' @ [dquote] @ ''name'' @ [dquote] @ '':'' @ [dquote]
                        @ ''JoJo'' @ [dquote] @ ''}''\<rparr>)
         else if Method r = ''PUT'' then \<lparr>StatusCode = 204, Header = [], Body = []\<rparr>
         else http_Error ''Method not allowed'' 405)
      else if Path r = ''/v1/user'' then
        (if Method r = ''POST'' then
           \<lparr>StatusCode = 201, Header = json_header,
            Body = ''{'' @ [dquote] @ ''id'' @ [dquote] @ '':1,'' @ [dquote] @ ''created_time''
                     @ [dquote] @ '':'' @ Itoa (sint now) @ ''}''\<rparr>
         else http_Error ''Method not allowed'' 405)
      else http_Error ''404 page not found'' 404)"

section \<open>An example run\<close>

text \<open>
  The environment of the examples below: the example server at clock 0, the model of
  \<^verbatim>\<open>encoding/json\<close>, a stand-in for
  \<^verbatim>\<open>httputil.DumpResponse\<close> that prints the status code and, when asked, the body, and
  path functions for names without a directory part.
\<close>

definition example_dump :: "response \<Rightarrow> bool \<Rightarrow> failure + string" where
  "example_dump resp body = Inr (Itoa (StatusCode resp) @ [newline] @ (if body then Body resp else []))"

definition example_env :: "bool \<Rightarrow> bool \<Rightarrow> int env" where
  "example_env dump update =
     \<lparr>router = newRouter 0, json_lib = json_model, dumpRawResponse = dump, updateGolden = update,
      DumpResponse = example_dump,
      filepath_Join = (\<lambda>dir name. dir @ ''/'' @ name),
      filepath_Dir = (\<lambda>path. ''testdata'')\<rparr>"

definition example_request :: "string \<Rightarrow> string \<Rightarrow> request" where
  "example_request method path =
     \<lparr>Method = method, URL = path, Path = path, Query = [], RequestBody = []\<rparr>"

definition example_T :: testing_T where
  "example_T = \<lparr>Name = ''example'', failed = False, logs = []\<rparr>"

definition example_files :: "string option \<Rightarrow> filesys" where
  "example_files golden = \<lparr>files = (\<lambda>name. golden), denied = {}\<rparr>"

text \<open>A handler whose JSON body is an array, not an object.\<close>

definition array_router :: "request \<Rightarrow> response" where
  "array_router r = \<lparr>StatusCode = 200, Header = json_header, Body = ''[1]''\<rparr>"

section \<open>Evaluation\<close>

lemma digits_small: "n < 10 \<Longrightarrow> digits n = [digit_char n]"
  by (simp add: digits.simps)

lemma digits_large: "10 \<le> n \<Longrightarrow> digits n = digits (n div 10) @ [digit_char (n mod 10)]"
  by (subst digits.simps) simp

lemma replicate_numeral: "replicate (numeral k) x = x # replicate (pred_numeral k) x"
  by (simp add: numeral_eq_Suc)

lemmas json_eval = json_model_def Unmarshal_def Decode_def fuel_def skip_ws_def isSpace_def isDigit_def parse_number_def parse_unsigned_def number_digits_def
  digits_val_def round_float64_def maxNestingDepth_def unescape_def hex_val_def hex4_def
  Marshal_def MarshalIndent_def Encode_def indentJSON_def encode_string_def encode_char_def
  hex_digit_def char_ok_def nl_def colon_def object_def array_def Itoa_def digit_char_def
  digits_small digits_large char_of_def bit_Suc_0_iff replicate_numeral

lemmas filter_eval = PrettyJSON_def ModifyJSON_def continue_def fatal_def Get_def HasPrefix_def

lemmas run_eval = RunTest_def dispatch_def serialize_def dumpRaw_def compareOrUpdate_def writeGolden_def
  readGolden_def goldenFileName_def os_MkdirAll_def os_WriteFile_def os_ReadFile_def
  Logf_def Errorf_def Fatal_def

lemmas example_eval = example_dump_def example_env_def example_request_def example_T_def
  example_files_def newRouter_def json_header_def http_Error_def array_router_def

section \<open>Properties of the field rewriter\<close>

lemma rewriteMap_append:
  "rewriteMap T (O1 @ O2) ps =
     (case rewriteMap T O1 ps of Inl e \<Rightarrow> Inl e | Inr T1 \<Rightarrow> rewriteMap T1 O2 ps)"
proof (induction O1 arbitrary: T)
  case Nil
  then show ?case by simp
next
  case (Cons kv O1)
  obtain k v where kv: "kv = (k, v)" by (cases kv)
  show ?case unfolding kv
    by (simp add: Cons.IH split: option.splits any.splits sum.splits)
qed

lemma update_keys: "map_of T k = Some old \<Longrightarrow> map fst (AList.update k v T) = map fst T"
  by (induction T) (auto split: if_splits)

lemma rewriteMap_keys:
  "rewriteMap T Ov ps = Inr T' \<Longrightarrow> map fst T' = map fst T"
proof (induction Ov arbitrary: T)
  case Nil
  then show ?case by simp
next
  case (Cons kv Ov)
  obtain k v where kv: "kv = (k, v)" by (cases kv)
  from Cons.prems show ?case unfolding kv
    by (auto split: option.splits any.splits sum.splits if_splits dest!: Cons.IH simp: update_keys)
qed

lemma rewriteMap_other:
  "rewriteMap T Ov ps = Inr T' \<Longrightarrow> k \<notin> fst ` set Ov \<Longrightarrow> map_of T' k = map_of T k"
proof (induction Ov arbitrary: T)
  case Nil
  then show ?case by simp
next
  case (Cons kv Ov)
  obtain k' v where kv: "kv = (k', v)" by (cases kv)
  from Cons.prems show ?case unfolding kv
    by (auto split: option.splits any.splits sum.splits if_splits dest!: Cons.IH simp: update_conv')
qed

lemma rewriteMap_absent_head:
  "k \<notin> fst ` set T \<Longrightarrow> rewriteMap T ((k, v) # Ov) ps = rewriteMap T Ov ps"
  by (simp add: map_of_eq_None_iff [symmetric])

lemma rewriteMap_literal_head:
  "literal v \<Longrightarrow> map_of T k = Some old \<Longrightarrow>
     rewriteMap T ((k, v) # Ov) ps = rewriteMap (AList.update k v T) Ov ps"
  by (cases v) simp_all

lemma rewriteMap_all_absent:
  "fst ` set Ov \<inter> fst ` set T = {} \<Longrightarrow> rewriteMap T Ov ps = Inr T"
proof (induction Ov)
  case Nil
  then show ?case by simp
next
  case (Cons kv Ov)
  obtain k v where kv: "kv = (k, v)" by (cases kv)
  from Cons.prems have a: "k \<notin> fst ` set T" and b: "fst ` set Ov \<inter> fst ` set T = {}"
    unfolding kv by auto
  have "rewriteMap T ((k, v) # Ov) ps = rewriteMap T Ov ps"
    using a by (rule rewriteMap_absent_head)
  also have "\<dots> = Inr T" using b by (rule Cons.IH)
  finally show ?case unfolding kv .
qed

text \<open>
  C4. When no key of the overwrite is a key of the target, \<^verbatim>\<open>rewriteMap\<close> returns the
  target unchanged and does not fail. More generally an entry of the overwrite whose key
  the target lacks can be dropped from the overwrite, wherever the loop meets it: the
  outcome is the same.
\<close>

theorem rewriteMap_absent_keys_noop:
  "(fst ` set Ov \<inter> fst ` set T = {} \<longrightarrow> rewriteMap T Ov ps = Inr T) \<and>
   (k \<notin> fst ` set T \<longrightarrow>
      rewriteMap T (O1 @ (k, v) # O2) ps = rewriteMap T (O1 @ O2) ps)"
proof (intro conjI impI)
  assume "fst ` set Ov \<inter> fst ` set T = {}"
  then show "rewriteMap T Ov ps = Inr T" by (rule rewriteMap_all_absent)
next
  assume k: "k \<notin> fst ` set T"
  show "rewriteMap T (O1 @ (k, v) # O2) ps = rewriteMap T (O1 @ O2) ps"
  proof (cases "rewriteMap T O1 ps")
    case (Inl e)
    then show ?thesis by (simp add: rewriteMap_append)
  next
    case (Inr T1)
    then have "map fst T1 = map fst T" by (rule rewriteMap_keys)
    then have "fst ` set T1 = fst ` set T" by (metis set_map)
    with k have "k \<notin> fst ` set T1" by simp
    then have "rewriteMap T1 ((k, v) # O2) ps = rewriteMap T1 O2 ps"
      by (rule rewriteMap_absent_head)
    then show ?thesis using Inr by (simp only: rewriteMap_append sum.case)
  qed
qed

theorem rewriteMap_absent_keys_noop_witness:
  "rewriteMap [(''id'', VFloat64 (1 :: int))] [(''created_time'', VInt 5)] []
     = Inr [(''id'', VFloat64 1)] \<and>
   rewriteMap [(''id'', VFloat64 (1 :: int))] [(''id'', VInt 7), (''created_time'', VInt 5)] []
     = rewriteMap [(''id'', VFloat64 1)] [(''id'', VInt 7)] []"
  using rewriteMap_absent_keys_noop [where Ov = "[(''created_time'', VInt 5)]"
      and T = "[(''id'', VFloat64 (1 :: int))]" and ps = "[]" and k = "''created_time''"
      and ?O1.0 = "[(''id'', VInt 7)]" and ?O2.0 = "[]" and v = "VInt 5"]
  by simp

lemma update_same: "map_of T k = Some v \<Longrightarrow> AList.update k v T = T"
  by (induction T) (auto split: if_splits)

lemma rewriteElems_length:
  "rewriteElems sub ovs k i ps = Inr sub' \<Longrightarrow> length sub' = length sub"
proof (induction ovs arbitrary: sub i sub')
  case Nil
  then show ?case by simp
next
  case (Cons vv v)
  show ?case
  proof (cases sub)
    case Nil
    with Cons.prems show ?thesis by simp
  next
    case (Cons s rest)
    with Cons.prems Cons.IH show ?thesis
      by (auto split: any.splits sum.splits)
  qed
qed

lemma rewriteMap_rewriteElems_idem:
  fixes T :: "'f gomap" and sub :: "'f any list"
  shows
  "(\<forall>T'. rewriteMap T Ov ps = Inr T' \<longrightarrow> wf_map Ov \<longrightarrow> rewriteMap T' Ov ps = Inr T')"
  "(\<forall>sub'. rewriteElems sub ovs k i ps = Inr sub' \<longrightarrow> wf_maps ovs \<longrightarrow>
      rewriteElems sub' ovs k i ps = Inr sub')"
proof (induction T Ov ps and sub ovs k i ps rule: rewriteMap_rewriteElems.induct)
  case (1 base parents)
  show ?case by simp
next
  case (2 base k v overwrite parents)
  show ?case
  proof (intro allI impI)
    fix T'
    assume run: "rewriteMap base ((k, v) # overwrite) parents = Inr T'"
      and wf: "wf_map ((k, v) # overwrite)"
    from wf have fresh: "k \<notin> fst ` set overwrite" and wfv: "wf_any v"
      and wfo: "wf_map overwrite" by simp_all
    show "rewriteMap T' ((k, v) # overwrite) parents = Inr T'"
    proof (cases "map_of base k")
      case None
      with run have r: "rewriteMap base overwrite parents = Inr T'" by simp
      with "2.IH"(1) [OF None] wfo have again: "rewriteMap T' overwrite parents = Inr T'"
        by blast
      from rewriteMap_other [OF r fresh] None have "map_of T' k = None" by simp
      then show ?thesis using again by simp
    next
      case (Some old)
      show ?thesis
      proof (cases "literal v")
        case True
        from run have r: "rewriteMap (AList.update k v base) overwrite parents = Inr T'"
          by (simp only: rewriteMap_literal_head [OF True Some])
        have "\<forall>T'. rewriteMap (AList.update k v base) overwrite parents = Inr T' \<longrightarrow>
                wf_map overwrite \<longrightarrow> rewriteMap T' overwrite parents = Inr T'"
        proof (cases v)
          case VNil
          show ?thesis by (rule "2.IH"(2) [OF Some VNil])
        next
          case (VBool b)
          show ?thesis by (rule "2.IH"(3) [OF Some VBool])
        next
          case (VFloat64 x)
          show ?thesis by (rule "2.IH"(4) [OF Some VFloat64])
        next
          case (VInt n)
          show ?thesis by (rule "2.IH"(5) [OF Some VInt])
        next
          case (VString x)
          show ?thesis by (rule "2.IH"(6) [OF Some VString])
        next
          case (VSlice xs)
          show ?thesis by (rule "2.IH"(7) [OF Some VSlice])
        next
          case (VMap ov)
          with True show ?thesis by simp
        next
          case (VMapSlice ovs)
          with True show ?thesis by simp
        next
          case (VStrings ss)
          show ?thesis by (rule "2.IH"(12) [OF Some VStrings])
        next
          case (VInts ns)
          show ?thesis by (rule "2.IH"(13) [OF Some VInts])
        qed
        with r wfo have ih: "rewriteMap T' overwrite parents = Inr T'" by blast
        from rewriteMap_other [OF r fresh] have at: "map_of T' k = Some v"
          by (simp add: update_conv')
        have "rewriteMap T' ((k, v) # overwrite) parents =
              rewriteMap (AList.update k v T') overwrite parents"
          by (rule rewriteMap_literal_head [OF True at])
        also have "\<dots> = Inr T'" using ih by (simp only: update_same [OF at])
        finally show ?thesis .
      next
        case False
        then consider (obj) ov where "v = VMap ov" | (arr) ovs where "v = VMapSlice ovs"
          by (cases v) simp_all
        then show ?thesis
        proof cases
          case obj
          from run Some obj obtain sub where old: "old = VMap sub"
            by (cases old) simp_all
          from run Some obj old obtain sub1 where
            s1: "rewriteMap sub ov (parents @ [k]) = Inr sub1" and
            r: "rewriteMap (AList.update k (VMap sub1) base) overwrite parents = Inr T'"
            by (cases "rewriteMap sub ov (parents @ [k])") simp_all
          from wfv obj have wfov: "wf_map ov" by simp
          from "2.IH"(8) [OF Some obj old] s1 wfov
          have s2: "rewriteMap sub1 ov (parents @ [k]) = Inr sub1" by blast
          from "2.IH"(9) [OF Some obj old s1] r wfo
          have ih: "rewriteMap T' overwrite parents = Inr T'" by blast
          from rewriteMap_other [OF r fresh] have at: "map_of T' k = Some (VMap sub1)"
            by (simp add: update_conv')
          show ?thesis using obj at s2 ih by (simp add: update_same [OF at])
        next
          case arr
          from run Some arr obtain sub where old: "old = VSlice sub"
            by (cases old) simp_all
          from run Some arr old have len: "\<not> length sub \<noteq> length ovs"
            by (auto split: if_splits)
          from run Some arr old len obtain sub1 where
            s1: "rewriteElems sub ovs k 0 parents = Inr sub1" and
            r: "rewriteMap (AList.update k (VSlice sub1) base) overwrite parents = Inr T'"
            by (cases "rewriteElems sub ovs k 0 parents") simp_all
          from wfv arr have wfov: "wf_maps ovs" by simp
          from "2.IH"(10) [OF Some arr old len] s1 wfov
          have s2: "rewriteElems sub1 ovs k 0 parents = Inr sub1" by blast
          from "2.IH"(11) [OF Some arr old len s1] r wfo
          have ih: "rewriteMap T' overwrite parents = Inr T'" by blast
          from rewriteMap_other [OF r fresh] have at: "map_of T' k = Some (VSlice sub1)"
            by (simp add: update_conv')
          have len1: "length sub1 = length ovs"
            using rewriteElems_length [OF s1] len by simp
          show ?thesis using arr at s2 ih len1 by (simp add: update_same [OF at])
        qed
      qed
    qed
  qed
next
  case (3 sub k i parents)
  show ?case by simp
next
  case (4 vv v k i parents)
  show ?case by simp
next
  case (5 s sub vv v k i parents)
  show ?case
  proof (intro allI impI)
    fix sub'
    assume run: "rewriteElems (s # sub) (vv # v) k i parents = Inr sub'"
      and wf: "wf_maps (vv # v)"
    from run obtain sub2 where s: "s = VMap sub2" by (cases s) simp_all
    from run s obtain sub2' where
      r1: "rewriteMap sub2 vv (parents @ [k @ ''#'' @ Itoa (int i)]) = Inr sub2'"
      by (cases "rewriteMap sub2 vv (parents @ [k @ ''#'' @ Itoa (int i)])") simp_all
    from run s r1 obtain rest where
      r2: "rewriteElems sub v k (Suc i) parents = Inr rest" and res: "sub' = VMap sub2' # rest"
      by (cases "rewriteElems sub v k (Suc i) parents") auto
    from wf have wfvv: "wf_map vv" and wfv: "wf_maps v" by simp_all
    from "5.IH"(1) [OF s] r1 wfvv
    have a: "rewriteMap sub2' vv (parents @ [k @ ''#'' @ Itoa (int i)]) = Inr sub2'" by blast
    from "5.IH"(2) [OF s r1] r2 wfv
    have b: "rewriteElems rest v k (Suc i) parents = Inr rest" by blast
    show "rewriteElems sub' (vv # v) k i parents = Inr sub'"
      unfolding res using a b by simp
  qed
qed

text \<open>
  C3. Idempotence: when \<^verbatim>\<open>rewriteMap\<close> succeeds on a target, running it again with the
  same overwrite on the rewritten target succeeds and changes nothing, through the nested
  object and the array-of-objects paths as well. The overwrite is a Go map at every level
  (\<open>wf_map\<close>: its keys are distinct).
\<close>

theorem rewriteMap_idempotent:
  "wf_map Ov \<Longrightarrow> rewriteMap T Ov ps = Inr T' \<Longrightarrow> rewriteMap T' Ov ps = Inr T'"
  using rewriteMap_rewriteElems_idem(1) [of T Ov ps] by blast

theorem rewriteMap_idempotent_witness:
  "wf_map ([(''user'', VMap [(''created_time'', VInt 7)]),
            (''items'', VMapSlice [[(''id'', VInt 0)], [(''id'', VInt 0)]]),
            (''token'', VString ''x'')] :: int gomap) \<and>
   rewriteMap
     [(''user'', VMap [(''name'', VString ''JoJo''), (''created_time'', VFloat64 (1677 :: int))]),
      (''items'', VSlice [VMap [(''id'', VFloat64 10)], VMap [(''id'', VFloat64 11)]]),
      (''token'', VNil)]
     [(''user'', VMap [(''created_time'', VInt 7)]),
      (''items'', VMapSlice [[(''id'', VInt 0)], [(''id'', VInt 0)]]),
      (''token'', VString ''x'')] []
   = Inr [(''user'', VMap [(''name'', VString ''JoJo''), (''created_time'', VInt 7)]),
          (''items'', VSlice [VMap [(''id'', VInt 0)], VMap [(''id'', VInt 0)]]),
          (''token'', VString ''x'')] \<and>
   rewriteMap
     [(''user'', VMap [(''name'', VString ''JoJo''), (''created_time'', VInt 7)]),
      (''items'', VSlice [VMap [(''id'', VInt 0)], VMap [(''id'', VInt 0)]]),
      (''token'', VString ''x'')]
     [(''user'', VMap [(''created_time'', VInt 7)]),
      (''items'', VMapSlice [[(''id'', VInt 0)], [(''id'', VInt 0)]]),
      (''token'', VString ''x'')] []
   = Inr [(''user'', VMap [(''name'', VString ''JoJo''), (''created_time'', VInt 7)]),
          (''items'', VSlice [VMap [(''id'', VInt 0)], VMap [(''id'', VInt 0)]]),
          (''token'', VString ''x'' :: int any)]"
proof -
  let ?Ov = "[(''user'', VMap [(''created_time'', VInt 7)]),
      (''items'', VMapSlice [[(''id'', VInt 0)], [(''id'', VInt 0)]]),
      (''token'', VString ''x'')] :: int gomap"
  let ?T = "[(''user'', VMap [(''name'', VString ''JoJo''), (''created_time'', VFloat64 1677)]),
      (''items'', VSlice [VMap [(''id'', VFloat64 10)], VMap [(''id'', VFloat64 11)]]),
      (''token'', VNil)] :: int gomap"
  let ?T' = "[(''user'', VMap [(''name'', VString ''JoJo''), (''created_time'', VInt 7)]),
          (''items'', VSlice [VMap [(''id'', VInt 0)], VMap [(''id'', VInt 0)]]),
          (''token'', VString ''x'')] :: int gomap"
  have wf: "wf_map ?Ov" by simp
  have run: "rewriteMap ?T ?Ov [] = Inr ?T'" by simp
  have again: "rewriteMap ?T' ?Ov [] = Inr ?T'" by (rule rewriteMap_idempotent [OF wf run])
  show ?thesis by (intro conjI) (rule wf, rule run, rule again)
qed

text \<open>
  C2. A key of the overwrite that the target has, with a nested-object overwrite where
  the target's value is not an object, or with an array-of-objects overwrite where the
  target's value is not an array or is an array of another length, makes \<^verbatim>\<open>rewriteMap\<close>
  fail: no target is returned, so nothing is truncated, padded or skipped.
\<close>

theorem rewriteMap_mismatch_fatal:
  assumes "distinct (map fst Ov)" and "(k, v) \<in> set Ov" and "map_of T k = Some old"
    and "(\<exists>ov. v = VMap ov \<and> (\<forall>sub. old \<noteq> VMap sub)) \<or>
         (\<exists>ovs. v = VMapSlice ovs \<and> (\<forall>sub. old = VSlice sub \<longrightarrow> length sub \<noteq> length ovs))"
  shows "\<exists>e. rewriteMap T Ov ps = Inl e"
proof -
  from assms(2) obtain O1 O2 where split: "Ov = O1 @ (k, v) # O2"
    by (auto dest: split_list)
  with assms(1) have fresh: "k \<notin> fst ` set O1" by auto
  show ?thesis
  proof (cases "rewriteMap T O1 ps")
    case (Inl e)
    then show ?thesis unfolding split by (simp add: rewriteMap_append)
  next
    case (Inr T1)
    from rewriteMap_other [OF Inr fresh] assms(3) have at: "map_of T1 k = Some old" by simp
    from assms(4) have "\<exists>e. rewriteMap T1 ((k, v) # O2) ps = Inl e"
    proof (elim disjE exE conjE)
      fix ov assume "v = VMap ov" and "\<forall>sub. old \<noteq> VMap sub"
      then show ?thesis using at by (cases old) simp_all
    next
      fix ovs assume "v = VMapSlice ovs"
        and "\<forall>sub. old = VSlice sub \<longrightarrow> length sub \<noteq> length ovs"
      then show ?thesis using at by (cases old) simp_all
    qed
    then show ?thesis unfolding split using Inr by (simp only: rewriteMap_append sum.case)
  qed
qed

theorem rewriteMap_mismatch_fatal_witness:
  "rewriteMap [(''items'', VSlice [VMap [(''id'', VFloat64 (1 :: int))]])]
     [(''items'', VMapSlice [[(''id'', VInt 0)], [(''id'', VInt 0)]])] []
   = Inl (CouldNotRewriteArrayMapLen 1 2 ''items'') \<and>
   rewriteMap [(''user'', VString ''JoJo'' :: int any)]
     [(''user'', VMap [(''id'', VInt 0)])] []
   = Inl (CouldNotRewriteMap ''user'')"
proof -
  have a: "\<exists>e. rewriteMap [(''items'', VSlice [VMap [(''id'', VFloat64 (1 :: int))]])]
     [(''items'', VMapSlice [[(''id'', VInt 0)], [(''id'', VInt 0)]])] [] = Inl e"
    by (rule rewriteMap_mismatch_fatal [where k = "''items''"
          and v = "VMapSlice [[(''id'', VInt 0)], [(''id'', VInt 0)]]"
          and old = "VSlice [VMap [(''id'', VFloat64 1)]]"]) simp_all
  have b: "\<exists>e. rewriteMap [(''user'', VString ''JoJo'' :: int any)]
     [(''user'', VMap [(''id'', VInt 0)])] [] = Inl e"
    by (rule rewriteMap_mismatch_fatal [where k = "''user''"
          and v = "VMap [(''id'', VInt 0)]" and old = "VString ''JoJo''"]) simp_all
  from a b show ?thesis by simp
qed

text \<open>
  C10. An overwrite value that is a slice, but not a \<^verbatim>\<open>[]map[string]any\<close>, falls into the
  \<^verbatim>\<open>default\<close> branch: for a key the target has, the entry stores the slice under the key
  and goes on, whatever the target held there (an array of another length as well), with
  no recursion, no length check and no failure of its own. With distinct keys in the
  overwrite, a successful run ends with the slice under that key.
\<close>

theorem rewriteMap_slice_literal:
  assumes "v = VSlice xs \<or> v = VStrings ss \<or> v = VInts ns" and "map_of T k = Some old"
  shows "rewriteMap T [(k, v)] ps = Inr (AList.update k v T) \<and>
         rewriteMap T (O1 @ (k, v) # O2) ps =
           (case rewriteMap T O1 ps of
              Inl e \<Rightarrow> Inl e
            | Inr T1 \<Rightarrow> rewriteMap (AList.update k v T1) O2 ps) \<and>
         (distinct (map fst (O1 @ (k, v) # O2)) \<longrightarrow>
            rewriteMap T (O1 @ (k, v) # O2) ps = Inr T' \<longrightarrow> map_of T' k = Some v)"
proof -
  from assms(1) have lit: "literal v" by auto
  have one: "rewriteMap T [(k, v)] ps = Inr (AList.update k v T)"
    by (simp only: rewriteMap_literal_head [OF lit assms(2)] rewriteMap.simps(1))
  have step: "rewriteMap T (O1 @ (k, v) # O2) ps =
           (case rewriteMap T O1 ps of
              Inl e \<Rightarrow> Inl e
            | Inr T1 \<Rightarrow> rewriteMap (AList.update k v T1) O2 ps)"
  proof (cases "rewriteMap T O1 ps")
    case (Inl e)
    then show ?thesis by (simp add: rewriteMap_append)
  next
    case (Inr T1)
    from rewriteMap_keys [OF Inr] have "fst ` set T1 = fst ` set T" by (metis set_map)
    moreover from assms(2) have "k \<in> fst ` set T" by (metis domI dom_map_of_conv_image_fst)
    ultimately have "k \<in> fst ` set T1" by simp
    then obtain old1 where "map_of T1 k = Some old1"
      by (metis domD dom_map_of_conv_image_fst)
    from rewriteMap_literal_head [OF lit this] Inr show ?thesis
      by (simp only: rewriteMap_append sum.case)
  qed
  have last: "map_of T' k = Some v"
    if d: "distinct (map fst (O1 @ (k, v) # O2))"
      and run: "rewriteMap T (O1 @ (k, v) # O2) ps = Inr T'"
  proof -
    from d have fresh: "k \<notin> fst ` set O2" by auto
    from run step obtain T1 where "rewriteMap T O1 ps = Inr T1"
      and r: "rewriteMap (AList.update k v T1) O2 ps = Inr T'"
      by (cases "rewriteMap T O1 ps") simp_all
    from rewriteMap_other [OF r fresh] show ?thesis by (simp add: update_conv')
  qed
  from one step last show ?thesis by blast
qed

theorem rewriteMap_slice_literal_witness:
  "rewriteMap [(''tags'', VSlice [VMap [(''n'', VFloat64 (1 :: int))], VMap [], VNil])]
      [(''tags'', VSlice [VString ''a''])] []
     = Inr [(''tags'', VSlice [VString ''a''])] \<and>
   rewriteMap [(''tags'', VSlice [VString ''x'', VString ''y'', VString ''z'' :: int any])]
      [(''tags'', VStrings [''a''])] []
     = Inr [(''tags'', VStrings [''a''])]"
proof -
  have a: "rewriteMap [(''tags'', VSlice [VMap [(''n'', VFloat64 (1 :: int))], VMap [], VNil])]
      [(''tags'', VSlice [VString ''a''])] []
     = Inr (AList.update ''tags'' (VSlice [VString ''a''])
         [(''tags'', VSlice [VMap [(''n'', VFloat64 (1 :: int))], VMap [], VNil])])"
    using rewriteMap_slice_literal [where v = "VSlice [VString ''a'']" and xs = "[VString ''a'']"
      and k = "''tags''" and ps = "[]"
      and T = "[(''tags'', VSlice [VMap [(''n'', VFloat64 (1 :: int))], VMap [], VNil])]"]
    by simp
  have b: "rewriteMap [(''tags'', VSlice [VString ''x'', VString ''y'', VString ''z'' :: int any])]
      [(''tags'', VStrings [''a''])] []
     = Inr (AList.update ''tags'' (VStrings [''a''])
         [(''tags'', VSlice [VString ''x'', VString ''y'', VString ''z''])])"
    using rewriteMap_slice_literal [where v = "VStrings [''a'']" and ss = "[''a'']"
      and k = "''tags''" and ps = "[]"
      and T = "[(''tags'', VSlice [VString ''x'', VString ''y'', VString ''z'' :: int any])]"]
    by simp
  from a b show ?thesis by simp
qed

section \<open>Properties of the filters and the test driver\<close>

text \<open>
  C6. \<^verbatim>\<open>PrettyJSON\<close> on status 204 leaves the response as it is and reports nothing. On
  any other status, when the \<^verbatim>\<open>Content-Type\<close> does not start with \<^verbatim>\<open>application/json\<close>, it
  stops the test with "Response is not JSON" whatever the body is: the body is not
  decoded. Otherwise it decodes the body and replaces it by the indented encoding, and an
  error of either step stops the test. This holds whatever \<^verbatim>\<open>json.Unmarshal\<close> and
  \<^verbatim>\<open>json.MarshalIndent\<close> return.
\<close>

theorem PrettyJSON_cases:
  "(StatusCode r = 204 \<longrightarrow> PrettyJSON lib r = Filtered [] False (Some r)) \<and>
   (StatusCode r \<noteq> 204 \<and> \<not> HasPrefix (Get (Header r) ''Content-Type'') ''application/json'' \<longrightarrow>
      (\<forall>body. PrettyJSON lib (r\<lparr>Body := body\<rparr>)
               = Filtered [FatalFailure ResponseIsNotJSON] True None)) \<and>
   (StatusCode r \<noteq> 204 \<and> HasPrefix (Get (Header r) ''Content-Type'') ''application/json'' \<longrightarrow>
      PrettyJSON lib r =
        (case json_Unmarshal lib (Body r) of
           Inl e \<Rightarrow> Filtered [FatalFailure e] True None
         | Inr tmp \<Rightarrow>
             (case json_MarshalIndent lib tmp of
                Inl e \<Rightarrow> Filtered [FatalFailure e] True None
              | Inr body \<Rightarrow> Filtered [] False (Some (r\<lparr>Body := body\<rparr>)))))"
  by (simp add: PrettyJSON_def continue_def fatal_def indentJSON_def split: sum.splits)

theorem PrettyJSON_cases_witness:
  "PrettyJSON json_model \<lparr>StatusCode = 204, Header = [], Body = []\<rparr>
     = Filtered [] False (Some \<lparr>StatusCode = 204, Header = [], Body = []\<rparr>) \<and>
   PrettyJSON json_model \<lparr>StatusCode = 200, Header = [(''Content-Type'', [''text/plain''])], Body = ''{}''\<rparr>
     = Filtered [FatalFailure ResponseIsNotJSON] True None \<and>
   PrettyJSON json_model (newRouter 0 \<lparr>Method = ''GET'', URL = ''/v1/health'', Path = ''/v1/health'',
                              Query = [], RequestBody = []\<rparr>)
     = Filtered [] False (Some \<lparr>StatusCode = 200, Header = json_header,
         Body = ''{'' @ [newline] @ ''  '' @ [dquote] @ ''hoge'' @ [dquote] @ '': '' @ [dquote]
                  @ ''fuga'' @ [dquote] @ [newline] @ ''}''\<rparr>)"
proof -
  let ?r1 = "\<lparr>StatusCode = 204, Header = [], Body = []\<rparr>"
  let ?r2 = "\<lparr>StatusCode = 200, Header = [(''Content-Type'', [''text/plain''])], Body = ''{}''\<rparr>"
  let ?r3 = "newRouter 0 \<lparr>Method = ''GET'', URL = ''/v1/health'', Path = ''/v1/health'',
                              Query = [], RequestBody = []\<rparr>"
  have a: "PrettyJSON json_model ?r1 = Filtered [] False (Some ?r1)"
    using PrettyJSON_cases [of ?r1 json_model] by simp
  have "\<forall>body. PrettyJSON json_model (?r2\<lparr>Body := body\<rparr>) = Filtered [FatalFailure ResponseIsNotJSON] True None"
    using PrettyJSON_cases [of ?r2 json_model] by (simp add: Get_def HasPrefix_def)
  then have "PrettyJSON json_model (?r2\<lparr>Body := ''{}''\<rparr>) = Filtered [FatalFailure ResponseIsNotJSON] True None"
    by blast
  then have b: "PrettyJSON json_model ?r2 = Filtered [FatalFailure ResponseIsNotJSON] True None" by simp
  have c: "PrettyJSON json_model ?r3 = Filtered [] False (Some \<lparr>StatusCode = 200, Header = json_header,
         Body = ''{'' @ [newline] @ ''  '' @ [dquote] @ ''hoge'' @ [dquote] @ '': '' @ [dquote]
                  @ ''fuga'' @ [dquote] @ [newline] @ ''}''\<rparr>)"
    using PrettyJSON_cases [of ?r3 json_model]
    by (simp add: newRouter_def json_header_def Get_def HasPrefix_def json_eval)
  from a b c show ?thesis by (intro conjI)
qed

text \<open>
  C8. Take a run of \<^verbatim>\<open>RunTest\<close> that reaches the dump of the filtered response. In update
  mode, when the operating system takes the directory and the file, the golden file holds
  the dump afterwards whatever it held before, and the test handle gets the closing log
  line only: nothing is compared, so nothing fails. When the operating system refuses,
  the test stops with the files as they were. In compare mode no run changes a file; a
  golden file that cannot be read (it is missing) stops the test, stored bytes other than
  the dump mark it failed and it goes on, and equal bytes leave it as it was.
\<close>

theorem RunTest_golden_modes:
  "(\<not> updateGolden env \<longrightarrow> fst (snd (RunTest env fs t r want filters)) = fs) \<and>
   (serialize env (fst (dispatch env t r want)) (snd (dispatch env t r want)) filters
      = (t1, Some dump) \<longrightarrow>
    (let file = goldenFileName env (Name t1) in
     (updateGolden env \<longrightarrow>
        (filepath_Dir env file \<notin> denied fs \<and> file \<notin> denied fs \<longrightarrow>
           RunTest env fs t r want filters
             = (Logf (LogGolden file) t1, fs\<lparr>files := (files fs)(file \<mapsto> dump)\<rparr>, True)) \<and>
        (filepath_Dir env file \<in> denied fs \<longrightarrow>
           RunTest env fs t r want filters
             = (Fatal (FileError (filepath_Dir env file)) t1, fs, False)) \<and>
        (filepath_Dir env file \<notin> denied fs \<and> file \<in> denied fs \<longrightarrow>
           RunTest env fs t r want filters = (Fatal (FileError file) t1, fs, False))) \<and>
     (\<not> updateGolden env \<longrightarrow>
        (file \<in> denied fs \<or> files fs file = None \<longrightarrow>
           RunTest env fs t r want filters = (Fatal (FileError file) t1, fs, False)) \<and>
        (\<forall>golden. file \<notin> denied fs \<and> files fs file = Some golden \<longrightarrow>
           RunTest env fs t r want filters
             = (Logf (LogGolden file)
                  (if golden \<noteq> dump then Errorf (ErrMismatch golden dump) t1 else t1),
                fs, True)))))"
proof (intro conjI impI)
  assume "\<not> updateGolden env"
  then show "fst (snd (RunTest env fs t r want filters)) = fs"
    by (simp add: RunTest_def compareOrUpdate_def readGolden_def Let_def
          split: prod.splits option.splits sum.splits bool.splits)
next
  assume s: "serialize env (fst (dispatch env t r want)) (snd (dispatch env t r want)) filters
      = (t1, Some dump)"
  then show "let file = goldenFileName env (Name t1) in
     (updateGolden env \<longrightarrow>
        (filepath_Dir env file \<notin> denied fs \<and> file \<notin> denied fs \<longrightarrow>
           RunTest env fs t r want filters
             = (Logf (LogGolden file) t1, fs\<lparr>files := (files fs)(file \<mapsto> dump)\<rparr>, True)) \<and>
        (filepath_Dir env file \<in> denied fs \<longrightarrow>
           RunTest env fs t r want filters
             = (Fatal (FileError (filepath_Dir env file)) t1, fs, False)) \<and>
        (filepath_Dir env file \<notin> denied fs \<and> file \<in> denied fs \<longrightarrow>
           RunTest env fs t r want filters = (Fatal (FileError file) t1, fs, False))) \<and>
     (\<not> updateGolden env \<longrightarrow>
        (file \<in> denied fs \<or> files fs file = None \<longrightarrow>
           RunTest env fs t r want filters = (Fatal (FileError file) t1, fs, False)) \<and>
        (\<forall>golden. file \<notin> denied fs \<and> files fs file = Some golden \<longrightarrow>
           RunTest env fs t r want filters
             = (Logf (LogGolden file)
                  (if golden \<noteq> dump then Errorf (ErrMismatch golden dump) t1 else t1),
                fs, True)))"
    by (cases "dispatch env t r want")
       (auto simp add: RunTest_def compareOrUpdate_def Let_def writeGolden_def readGolden_def
          os_MkdirAll_def os_WriteFile_def os_ReadFile_def Logf_def Errorf_def Fatal_def)
qed

lemma example_health_serialize:
  "serialize (example_env False upd)
     (fst (dispatch (example_env False upd) example_T (example_request ''GET'' ''/v1/health'') 200))
     (snd (dispatch (example_env False upd) example_T (example_request ''GET'' ''/v1/health'') 200))
     [PrettyJSON json_model]
   = (\<lparr>Name = ''example'', failed = False, logs = [LogRequest ''GET'' ''/v1/health'']\<rparr>,
      Some (''200'' @ [newline] @ ''{'' @ [newline] @ ''  '' @ [dquote] @ ''hoge'' @ [dquote] @ '': ''
              @ [dquote] @ ''fuga'' @ [dquote] @ [newline] @ ''}''))"
  by (simp add: run_eval example_eval filter_eval json_eval)

theorem RunTest_golden_modes_witness:
  "RunTest (example_env False True) (example_files (Some ''stale'')) example_T
      (example_request ''GET'' ''/v1/health'') 200 [PrettyJSON json_model]
    = (\<lparr>Name = ''example'', failed = False,
         logs = [LogRequest ''GET'' ''/v1/health'', LogGolden ''testdata/example.golden'']\<rparr>,
       (example_files (Some ''stale''))\<lparr>files := (files (example_files (Some ''stale'')))
          (''testdata/example.golden'' \<mapsto>
             ''200'' @ [newline] @ ''{'' @ [newline] @ ''  '' @ [dquote] @ ''hoge'' @ [dquote] @ '': ''
              @ [dquote] @ ''fuga'' @ [dquote] @ [newline] @ ''}'')\<rparr>,
       True) \<and>
   RunTest (example_env False False) (example_files None) example_T
      (example_request ''GET'' ''/v1/health'') 200 [PrettyJSON json_model]
    = (\<lparr>Name = ''example'', failed = True,
         logs = [LogRequest ''GET'' ''/v1/health'',
                 FatalFailure (FileError ''testdata/example.golden'')]\<rparr>,
       example_files None, False) \<and>
   RunTest (example_env False False) (example_files (Some ''stale'')) example_T
      (example_request ''GET'' ''/v1/health'') 200 [PrettyJSON json_model]
    = (\<lparr>Name = ''example'', failed = True,
         logs = [LogRequest ''GET'' ''/v1/health'',
                 ErrMismatch ''stale''
                   (''200'' @ [newline] @ ''{'' @ [newline] @ ''  '' @ [dquote] @ ''hoge'' @ [dquote]
                      @ '': '' @ [dquote] @ ''fuga'' @ [dquote] @ [newline] @ ''}''),
                 LogGolden ''testdata/example.golden'']\<rparr>,
       example_files (Some ''stale''), True)"
proof -
  let ?t1 = "\<lparr>Name = ''example'', failed = False, logs = [LogRequest ''GET'' ''/v1/health'']\<rparr>"
  let ?dump = "''200'' @ [newline] @ ''{'' @ [newline] @ ''  '' @ [dquote] @ ''hoge'' @ [dquote] @ '': ''
              @ [dquote] @ ''fuga'' @ [dquote] @ [newline] @ ''}''"
  have a: "RunTest (example_env False True) (example_files (Some ''stale'')) example_T
      (example_request ''GET'' ''/v1/health'') 200 [PrettyJSON json_model]
    = (\<lparr>Name = ''example'', failed = False,
         logs = [LogRequest ''GET'' ''/v1/health'', LogGolden ''testdata/example.golden'']\<rparr>,
       (example_files (Some ''stale''))\<lparr>files := (files (example_files (Some ''stale'')))
          (''testdata/example.golden'' \<mapsto>
             ''200'' @ [newline] @ ''{'' @ [newline] @ ''  '' @ [dquote] @ ''hoge'' @ [dquote] @ '': ''
              @ [dquote] @ ''fuga'' @ [dquote] @ [newline] @ ''}'')\<rparr>,
       True)"
    using RunTest_golden_modes [of "example_env False True" "example_files (Some ''stale'')"
        example_T "example_request ''GET'' ''/v1/health''" 200 "[PrettyJSON json_model]" ?t1 ?dump]
      example_health_serialize [of True]
    by (simp add: Let_def goldenFileName_def Logf_def example_env_def example_files_def)
  have b: "RunTest (example_env False False) (example_files None) example_T
      (example_request ''GET'' ''/v1/health'') 200 [PrettyJSON json_model]
    = (\<lparr>Name = ''example'', failed = True,
         logs = [LogRequest ''GET'' ''/v1/health'',
                 FatalFailure (FileError ''testdata/example.golden'')]\<rparr>,
       example_files None, False)"
    using RunTest_golden_modes [of "example_env False False" "example_files None"
        example_T "example_request ''GET'' ''/v1/health''" 200 "[PrettyJSON json_model]" ?t1 ?dump]
      example_health_serialize [of False]
    by (simp add: Let_def goldenFileName_def Fatal_def example_env_def example_files_def)
  have c: "RunTest (example_env False False) (example_files (Some ''stale'')) example_T
      (example_request ''GET'' ''/v1/health'') 200 [PrettyJSON json_model]
    = (\<lparr>Name = ''example'', failed = True,
         logs = [LogRequest ''GET'' ''/v1/health'',
                 ErrMismatch ''stale''
                   (''200'' @ [newline] @ ''{'' @ [newline] @ ''  '' @ [dquote] @ ''hoge'' @ [dquote]
                      @ '': '' @ [dquote] @ ''fuga'' @ [dquote] @ [newline] @ ''}''),
                 LogGolden ''testdata/example.golden'']\<rparr>,
       example_files (Some ''stale''), True)"
    using RunTest_golden_modes [of "example_env False False" "example_files (Some ''stale'')"
        example_T "example_request ''GET'' ''/v1/health''" 200 "[PrettyJSON json_model]" ?t1 ?dump]
      example_health_serialize [of False]
    by (simp add: Let_def goldenFileName_def Logf_def Errorf_def example_env_def example_files_def)
  from a b c show ?thesis by (intro conjI)
qed

lemma amend_Logf:
  "n \<le> length (logs t) \<Longrightarrow> amend fl n e (Logf x t) = Logf x (amend fl n e t)"
  by (simp add: amend_def Logf_def)

lemma amend_Errorf:
  "n \<le> length (logs t) \<Longrightarrow> amend fl n e (Errorf x t) = Errorf x (amend fl n e t)"
  by (simp add: amend_def Errorf_def)

lemma amend_Fatal:
  "n \<le> length (logs t) \<Longrightarrow> amend fl n e (Fatal x t) = Fatal x (amend fl n e t)"
  by (simp add: amend_def Fatal_def)

lemma Name_amend [simp]: "Name (amend fl n e t) = Name t"
  by (simp add: amend_def)

lemma Name_Logf [simp]: "Name (Logf x t) = Name t"
  by (simp add: Logf_def)

lemma Name_Errorf [simp]: "Name (Errorf x t) = Name t"
  by (simp add: Errorf_def)

lemma logs_Errorf [simp]: "logs (Errorf x t) = logs t @ [x]"
  by (simp add: Errorf_def)

lemma runFilters_amend:
  "n \<le> length (logs t) \<Longrightarrow>
     runFilters filters (amend fl n e t) got =
       (case runFilters filters t got of (t', res) \<Rightarrow> (amend fl n e t', res))"
proof (induction filters arbitrary: t got)
  case Nil
  then show ?case by simp
next
  case (Cons f filters)
  let ?t' = "t\<lparr>failed := failed t \<or> marked (f got), logs := logs t @ logged (f got)\<rparr>"
  have step: "(amend fl n e t)\<lparr>failed := failed (amend fl n e t) \<or> marked (f got),
                 logs := logs (amend fl n e t) @ logged (f got)\<rparr> = amend fl n e ?t'"
    using Cons.prems by (simp add: amend_def disj_ac)
  have len: "n \<le> length (logs ?t')" using Cons.prems by simp
  show ?case
    by (cases "left (f got)") (simp_all add: Let_def step Cons.IH [OF len])
qed

lemma runFilters_logs:
  "runFilters filters t got = (t', res) \<Longrightarrow> length (logs t) \<le> length (logs t')"
proof (induction filters arbitrary: t got)
  case Nil
  then show ?case by simp
next
  case (Cons f filters)
  show ?case
  proof (cases "left (f got)")
    case None
    with Cons.prems show ?thesis by (auto simp add: Let_def)
  next
    case (Some got')
    with Cons.prems have "runFilters filters
        (t\<lparr>failed := failed t \<or> marked (f got), logs := logs t @ logged (f got)\<rparr>) got' = (t', res)"
      by (simp add: Let_def)
    from Cons.IH [OF this] show ?thesis by simp
  qed
qed

lemma dumpRaw_amend:
  "n \<le> length (logs t) \<Longrightarrow>
     dumpRaw env (amend fl n e t) got =
       (case dumpRaw env t got of (t', go) \<Rightarrow> (amend fl n e t', go))"
  by (simp add: dumpRaw_def amend_Fatal amend_Logf split: sum.splits)

lemma dumpRaw_logs:
  "dumpRaw env t got = (t', go) \<Longrightarrow> length (logs t) \<le> length (logs t')"
  by (auto simp add: dumpRaw_def Fatal_def Logf_def split: if_splits sum.splits)

lemma serialize_amend:
  assumes "n \<le> length (logs t)"
  shows "serialize env (amend fl n e t) got filters =
       (case serialize env t got filters of (t', dump) \<Rightarrow> (amend fl n e t', dump))"
proof -
  obtain t1 go where d: "dumpRaw env t got = (t1, go)" by (cases "dumpRaw env t got")
  from dumpRaw_logs [OF d] assms have n1: "n \<le> length (logs t1)" by simp
  show ?thesis
  proof (cases go)
    case False
    with d show ?thesis by (simp add: serialize_def dumpRaw_amend [OF assms])
  next
    case True
    obtain t2 res where f: "runFilters filters t1 got = (t2, res)"
      by (cases "runFilters filters t1 got")
    from runFilters_logs [OF f] n1 have n2: "n \<le> length (logs t2)" by simp
    from d True f show ?thesis
      by (simp add: serialize_def dumpRaw_amend [OF assms] runFilters_amend [OF n1]
            amend_Fatal [OF n2] split: option.splits sum.splits)
  qed
qed

lemma compareOrUpdate_amend:
  assumes "n \<le> length (logs t)"
  shows "compareOrUpdate env fs (amend fl n e t) dump =
       (case compareOrUpdate env fs t dump of (t', fs', go) \<Rightarrow> (amend fl n e t', fs', go))"
  using assms
  by (simp add: compareOrUpdate_def writeGolden_def readGolden_def Let_def
        amend_Fatal amend_Logf amend_Errorf split: sum.splits)

lemma serialize_logs:
  "serialize env t got filters = (t', dump) \<Longrightarrow> length (logs t) \<le> length (logs t')"
proof -
  assume s: "serialize env t got filters = (t', dump)"
  obtain t1 go where d: "dumpRaw env t got = (t1, go)" by (cases "dumpRaw env t got")
  obtain t2 res where f: "runFilters filters t1 got = (t2, res)"
    by (cases "runFilters filters t1 got")
  from s d f have "t' = t1 \<or> t' = t2 \<or> (\<exists>x. t' = Fatal x t2)"
    by (auto simp add: serialize_def split: bool.splits option.splits sum.splits)
  with dumpRaw_logs [OF d] runFilters_logs [OF f] show ?thesis
    by (auto simp add: Fatal_def)
qed

lemma RunTest_amend:
  assumes "n \<le> length (logs t0)"
  shows "(case serialize env (amend fl n e t0) got filters of
            (t1, None) \<Rightarrow> (t1, fs, False)
          | (t1, Some dump) \<Rightarrow> compareOrUpdate env fs t1 dump) =
         (case (case serialize env t0 got filters of
                  (t1, None) \<Rightarrow> (t1, fs, False)
                | (t1, Some dump) \<Rightarrow> compareOrUpdate env fs t1 dump) of
            (t', fs', go) \<Rightarrow> (amend fl n e t', fs', go))"
proof -
  obtain t1 dump where s: "serialize env t0 got filters = (t1, dump)"
    by (cases "serialize env t0 got filters")
  from serialize_logs [OF s] assms have "n \<le> length (logs t1)" by simp
  then show ?thesis using s
    by (simp add: serialize_amend [OF assms] compareOrUpdate_amend split: option.splits)
qed

text \<open>
  C9. When the status code of the response differs from \<^verbatim>\<open>want\<close>, \<^verbatim>\<open>RunTest\<close> does what
  it does in the run that expects the status code the response has, with the same files
  and the same return or stop, through the filters, the dump and the golden step; the
  test handle differs only in that it is marked failed and holds the report of the status
  code, right after the opening log line.
\<close>

theorem RunTest_status_mismatch_continues:
  assumes "StatusCode (router env r) \<noteq> want"
  shows "RunTest env fs t r want filters =
     (case RunTest env fs t r (StatusCode (router env r)) filters of
        (t', fs', returned) \<Rightarrow>
          (amend True (Suc (length (logs t)))
             (ErrStatusCode (StatusCode (router env r)) want) t', fs', returned))"
proof -
  let ?t1 = "Logf (LogRequest (Method r) (URL r)) t"
  let ?e = "ErrStatusCode (StatusCode (router env r)) want"
  have n: "Suc (length (logs t)) \<le> length (logs ?t1)" by (simp add: Logf_def)
  have e: "Errorf ?e ?t1 = amend True (Suc (length (logs t))) ?e ?t1"
    by (simp add: Errorf_def amend_def Logf_def)
  have a: "dispatch env t r want = (amend True (Suc (length (logs t))) ?e ?t1, router env r)"
    using assms by (simp add: dispatch_def Let_def e)
  have b: "dispatch env t r (StatusCode (router env r)) = (?t1, router env r)"
    by (simp add: dispatch_def Let_def)
  show ?thesis
    unfolding RunTest_def a b prod.case by (rule RunTest_amend [OF n])
qed

lemma example_health_update_run:
  "RunTest (example_env False True) (example_files None) example_T
      (example_request ''GET'' ''/v1/health'') 200 [PrettyJSON json_model]
    = (\<lparr>Name = ''example'', failed = False,
         logs = [LogRequest ''GET'' ''/v1/health'', LogGolden ''testdata/example.golden'']\<rparr>,
       (example_files None)\<lparr>files := (files (example_files None))
          (''testdata/example.golden'' \<mapsto>
             ''200'' @ [newline] @ ''{'' @ [newline] @ ''  '' @ [dquote] @ ''hoge'' @ [dquote] @ '': ''
              @ [dquote] @ ''fuga'' @ [dquote] @ [newline] @ ''}'')\<rparr>,
       True)"
  by (simp add: run_eval example_eval filter_eval json_eval)

theorem RunTest_status_mismatch_continues_witness:
  "RunTest (example_env False True) (example_files None) example_T
      (example_request ''GET'' ''/v1/health'') 201 [PrettyJSON json_model]
    = (\<lparr>Name = ''example'', failed = True,
         logs = [LogRequest ''GET'' ''/v1/health'', ErrStatusCode 200 201,
                 LogGolden ''testdata/example.golden'']\<rparr>,
       (example_files None)\<lparr>files := (files (example_files None))
          (''testdata/example.golden'' \<mapsto>
             ''200'' @ [newline] @ ''{'' @ [newline] @ ''  '' @ [dquote] @ ''hoge'' @ [dquote] @ '': ''
              @ [dquote] @ ''fuga'' @ [dquote] @ [newline] @ ''}'')\<rparr>,
       True)"
proof -
  have status: "StatusCode (router (example_env False True) (example_request ''GET'' ''/v1/health''))
                  = 200"
    by (simp add: example_eval)
  then have "StatusCode (router (example_env False True) (example_request ''GET'' ''/v1/health''))
                  \<noteq> 201" by simp
  from RunTest_status_mismatch_continues [OF this, of "example_files None" example_T "[PrettyJSON json_model]"]
  show ?thesis
    unfolding status example_health_update_run
    by (simp add: amend_def example_T_def)
qed

lemma goldenFileName_dump [simp]:
  "goldenFileName (env\<lparr>dumpRawResponse := b\<rparr>) = goldenFileName env"
  by (rule ext) (simp add: goldenFileName_def)

lemma writeGolden_dump [simp]:
  "writeGolden (env\<lparr>dumpRawResponse := b\<rparr>) = writeGolden env"
  by (intro ext) (simp add: writeGolden_def)

lemma readGolden_dump [simp]:
  "readGolden (env\<lparr>dumpRawResponse := b\<rparr>) = readGolden env"
  by (intro ext) (simp add: readGolden_def)

lemma compareOrUpdate_dump:
  "compareOrUpdate (env\<lparr>dumpRawResponse := b\<rparr>) = compareOrUpdate env"
  by (intro ext) (simp add: compareOrUpdate_def)

text \<open>
  C5, as the code has it. With the dump switch on, \<^verbatim>\<open>RunTest\<close> prints the raw response
  before the filters run: it calls \<^verbatim>\<open>indentJSON\<close> on the body when the response has a JSON
  content type and status 200 or 201, and dumps the header. When both succeed, the run
  differs from the run with the switch off in one log entry and nothing else: the same
  failure mark, the same files, the same return or stop. When \<^verbatim>\<open>indentJSON\<close> or the dump
  of the header fails, the run with the switch on stops the test there, before the
  filters, and changes no file. This holds for every router, every \<^verbatim>\<open>encoding/json\<close> and
  every \<^verbatim>\<open>httputil.DumpResponse\<close>.
\<close>

theorem RunTest_dump_switch:
  "(\<forall>body dump.
      (if HasPrefix (Get (Header (router env r)) ''Content-Type'') ''application/json''
            \<and> (StatusCode (router env r) = 200 \<or> StatusCode (router env r) = 201)
       then indentJSON (json_lib env) (Body (router env r)) else Inr (Body (router env r))) = Inr body
      \<and> DumpResponse env (router env r) False = Inr dump \<longrightarrow>
      RunTest (env\<lparr>dumpRawResponse := True\<rparr>) fs t r want filters =
        (case RunTest (env\<lparr>dumpRawResponse := False\<rparr>) fs t r want filters of
           (t', fs', returned) \<Rightarrow>
             (amend False (length (logs (fst (dispatch env t r want))))
                (LogRawResponse dump body) t', fs', returned))) \<and>
   (\<forall>e.
      (if HasPrefix (Get (Header (router env r)) ''Content-Type'') ''application/json''
            \<and> (StatusCode (router env r) = 200 \<or> StatusCode (router env r) = 201)
       then indentJSON (json_lib env) (Body (router env r)) else Inr (Body (router env r))) = Inl e \<longrightarrow>
      RunTest (env\<lparr>dumpRawResponse := True\<rparr>) fs t r want filters
        = (Fatal e (fst (dispatch env t r want)), fs, False)) \<and>
   (\<forall>body e.
      (if HasPrefix (Get (Header (router env r)) ''Content-Type'') ''application/json''
            \<and> (StatusCode (router env r) = 200 \<or> StatusCode (router env r) = 201)
       then indentJSON (json_lib env) (Body (router env r)) else Inr (Body (router env r))) = Inr body
      \<and> DumpResponse env (router env r) False = Inl e \<longrightarrow>
      RunTest (env\<lparr>dumpRawResponse := True\<rparr>) fs t r want filters
        = (Fatal e (fst (dispatch env t r want)), fs, False))"
proof (intro conjI allI impI)
  fix body dump
  let ?on = "env\<lparr>dumpRawResponse := True\<rparr>" and ?off = "env\<lparr>dumpRawResponse := False\<rparr>"
  let ?got = "router env r"
  let ?t0 = "fst (dispatch env t r want)"
  let ?e = "LogRawResponse dump body"
  assume h: "(if HasPrefix (Get (Header ?got) ''Content-Type'') ''application/json''
            \<and> (StatusCode ?got = 200 \<or> StatusCode ?got = 201)
       then indentJSON (json_lib env) (Body ?got) else Inr (Body ?got)) = Inr body
      \<and> DumpResponse env ?got False = Inr dump"
  have don: "dispatch ?on t r want = (?t0, ?got)" by (simp add: dispatch_def Let_def)
  have doff: "dispatch ?off t r want = (?t0, ?got)" by (simp add: dispatch_def Let_def)
  have raw: "dumpRaw ?on ?t0 ?got = (amend False (length (logs ?t0)) ?e ?t0, True)"
    using h by (auto simp add: dumpRaw_def Logf_def amend_def split: if_splits)
  have rawoff: "dumpRaw ?off t' ?got = (t', True)" for t'
    by (simp add: dumpRaw_def)
  have ser: "serialize ?on ?t0 ?got filters
               = serialize ?off (amend False (length (logs ?t0)) ?e ?t0) ?got filters"
    by (simp add: serialize_def raw rawoff)
  have cu: "compareOrUpdate ?on fs t' d = compareOrUpdate ?off fs t' d" for t' d
    by (simp add: compareOrUpdate_dump)
  show "RunTest ?on fs t r want filters =
        (case RunTest ?off fs t r want filters of
           (t', fs', returned) \<Rightarrow> (amend False (length (logs ?t0)) ?e t', fs', returned))"
    unfolding RunTest_def don doff prod.case ser cu
    by (rule RunTest_amend) simp
next
  fix e
  let ?got = "router env r"
  assume h: "(if HasPrefix (Get (Header ?got) ''Content-Type'') ''application/json''
            \<and> (StatusCode ?got = 200 \<or> StatusCode ?got = 201)
       then indentJSON (json_lib env) (Body ?got) else Inr (Body ?got)) = Inl e"
  then show "RunTest (env\<lparr>dumpRawResponse := True\<rparr>) fs t r want filters
        = (Fatal e (fst (dispatch env t r want)), fs, False)"
    by (auto simp add: RunTest_def dispatch_def Let_def serialize_def dumpRaw_def split: if_splits)
next
  fix body e
  let ?got = "router env r"
  assume h: "(if HasPrefix (Get (Header ?got) ''Content-Type'') ''application/json''
            \<and> (StatusCode ?got = 200 \<or> StatusCode ?got = 201)
       then indentJSON (json_lib env) (Body ?got) else Inr (Body ?got)) = Inr body
      \<and> DumpResponse env ?got False = Inl e"
  then show "RunTest (env\<lparr>dumpRawResponse := True\<rparr>) fs t r want filters
        = (Fatal e (fst (dispatch env t r want)), fs, False)"
    by (auto simp add: RunTest_def dispatch_def Let_def serialize_def dumpRaw_def split: if_splits)
qed

theorem RunTest_dump_switch_witness:
  "RunTest (example_env True True) (example_files None) example_T
      (example_request ''GET'' ''/v1/health'') 200 [PrettyJSON json_model]
    = (\<lparr>Name = ''example'', failed = False,
         logs = [LogRequest ''GET'' ''/v1/health'',
                 LogRawResponse (''200'' @ [newline])
                   (''{'' @ [newline] @ ''  '' @ [dquote] @ ''hoge'' @ [dquote] @ '': ''
                      @ [dquote] @ ''fuga'' @ [dquote] @ [newline] @ ''}''),
                 LogGolden ''testdata/example.golden'']\<rparr>,
       (example_files None)\<lparr>files := (files (example_files None))
          (''testdata/example.golden'' \<mapsto>
             ''200'' @ [newline] @ ''{'' @ [newline] @ ''  '' @ [dquote] @ ''hoge'' @ [dquote] @ '': ''
              @ [dquote] @ ''fuga'' @ [dquote] @ [newline] @ ''}'')\<rparr>,
       True) \<and>
   RunTest ((example_env True True)\<lparr>router := array_router\<rparr>) (example_files None) example_T
      (example_request ''GET'' ''/list'') 200 []
    = (\<lparr>Name = ''example'', failed = True,
         logs = [LogRequest ''GET'' ''/list'', FatalFailure JSONError]\<rparr>,
       example_files None, False)"
proof -
  let ?env = "example_env False True"
  let ?r = "example_request ''GET'' ''/v1/health''"
  let ?body = "''{'' @ [newline] @ ''  '' @ [dquote] @ ''hoge'' @ [dquote] @ '': ''
                 @ [dquote] @ ''fuga'' @ [dquote] @ [newline] @ ''}''"
  have on: "?env\<lparr>dumpRawResponse := True\<rparr> = example_env True True"
    and off: "?env\<lparr>dumpRawResponse := False\<rparr> = example_env False True"
    by (simp_all add: example_env_def)
  have h: "(if HasPrefix (Get (Header (router ?env ?r)) ''Content-Type'') ''application/json''
            \<and> (StatusCode (router ?env ?r) = 200 \<or> StatusCode (router ?env ?r) = 201)
       then indentJSON (json_lib ?env) (Body (router ?env ?r)) else Inr (Body (router ?env ?r))) = Inr ?body
      \<and> DumpResponse ?env (router ?env ?r) False = Inr (''200'' @ [newline])"
    by (simp add: example_eval filter_eval json_eval)
  have n: "length (logs (fst (dispatch ?env example_T ?r 200))) = 1"
    by (simp add: dispatch_def Let_def Logf_def example_eval)
  have a: "RunTest (example_env True True) (example_files None) example_T ?r 200 [PrettyJSON json_model]
    = (\<lparr>Name = ''example'', failed = False,
         logs = [LogRequest ''GET'' ''/v1/health'',
                 LogRawResponse (''200'' @ [newline]) ?body,
                 LogGolden ''testdata/example.golden'']\<rparr>,
       (example_files None)\<lparr>files := (files (example_files None))
          (''testdata/example.golden'' \<mapsto> ''200'' @ [newline] @ ?body)\<rparr>,
       True)"
    using RunTest_dump_switch [of ?env ?r "example_files None" example_T 200 "[PrettyJSON json_model]"] h
    unfolding on off n example_health_update_run
    by (simp add: amend_def)
  let ?aenv = "(example_env False True)\<lparr>router := array_router\<rparr>"
  let ?q = "example_request ''GET'' ''/list''"
  have aon: "?aenv\<lparr>dumpRawResponse := True\<rparr> = (example_env True True)\<lparr>router := array_router\<rparr>"
    by (simp add: example_env_def)
  have g: "(if HasPrefix (Get (Header (router ?aenv ?q)) ''Content-Type'') ''application/json''
            \<and> (StatusCode (router ?aenv ?q) = 200 \<or> StatusCode (router ?aenv ?q) = 201)
       then indentJSON (json_lib ?aenv) (Body (router ?aenv ?q)) else Inr (Body (router ?aenv ?q))) = Inl JSONError"
    by (simp add: example_eval filter_eval json_eval)
  have b: "RunTest ((example_env True True)\<lparr>router := array_router\<rparr>) (example_files None)
      example_T ?q 200 []
    = (\<lparr>Name = ''example'', failed = True,
         logs = [LogRequest ''GET'' ''/list'', FatalFailure JSONError]\<rparr>,
       example_files None, False)"
    using RunTest_dump_switch [of ?aenv ?q "example_files None" example_T 200 "[]"] g
    unfolding aon
    by (simp add: dispatch_def Let_def Logf_def Fatal_def example_eval)
  from a b show ?thesis by (intro conjI)
qed

theorem RunTest_dump_switch_counterexample:
  "RunTest ((example_env True True)\<lparr>router := array_router\<rparr>) (example_files None) example_T
      (example_request ''GET'' ''/list'') 200 []
    = (\<lparr>Name = ''example'', failed = True,
         logs = [LogRequest ''GET'' ''/list'', FatalFailure JSONError]\<rparr>,
       example_files None, False) \<and>
   RunTest ((example_env False True)\<lparr>router := array_router\<rparr>) (example_files None) example_T
      (example_request ''GET'' ''/list'') 200 []
    = (\<lparr>Name = ''example'', failed = False,
         logs = [LogRequest ''GET'' ''/list'', LogGolden ''testdata/example.golden'']\<rparr>,
       (example_files None)\<lparr>files := (files (example_files None))
          (''testdata/example.golden'' \<mapsto> ''200'' @ [newline] @ ''[1]'')\<rparr>,
       True)"
  by (simp add: run_eval example_eval filter_eval json_eval)

section \<open>Decoding what the encoder prints\<close>

subsection \<open>Digits\<close>

lemma one_digit: "d < 10 \<Longrightarrow> d \<in> {0, 1, 2, 3, 4, 5, 6, 7, 8, 9 :: nat}"
  by simp arith

lemma of_char_digit_char: "d < 10 \<Longrightarrow> (of_char (digit_char d) :: nat) = 48 + d"
  using one_digit [of d] by (auto simp add: digit_char_def)

lemma isDigit_digit_char: "d < 10 \<Longrightarrow> isDigit (digit_char d)"
  by (simp add: isDigit_def of_char_digit_char)

lemma digits_not_Nil [simp]: "digits n \<noteq> []"
  by (subst digits.simps) simp

lemma digits_all_digit: "list_all isDigit (digits n)"
proof (induction n rule: digits.induct)
  case (1 n)
  show ?case
  proof (cases "n < 10")
    case True
    then show ?thesis by (simp add: digits_small isDigit_digit_char)
  next
    case False
    with 1 show ?thesis by (simp add: digits_large isDigit_digit_char)
  qed
qed

lemma digits_val_snoc: "digits_val (ds @ [c]) = 10 * digits_val ds + (of_char c - 48)"
  by (simp add: digits_val_def)

lemma digits_val_digits: "digits_val (digits n) = n"
proof (induction n rule: digits.induct)
  case (1 n)
  show ?case
  proof (cases "n < 10")
    case True
    then show ?thesis by (simp add: digits_small digits_val_def of_char_digit_char)
  next
    case False
    with 1 have "digits_val (digits (n div 10)) = n div 10" by simp
    with False show ?thesis
      by (simp add: digits_large digits_val_snoc of_char_digit_char)
  qed
qed

lemma hd_digits_zero: "hd (digits n) = CHR ''0'' \<longleftrightarrow> n = 0"
proof (induction n rule: digits.induct)
  case (1 n)
  show ?case
  proof (cases "n < 10")
    case True
    with one_digit [of n] show ?thesis by (auto simp add: digits_small digit_char_def)
  next
    case False
    then have "n div 10 \<noteq> 0" by simp
    with 1 False have "hd (digits (n div 10)) \<noteq> CHR ''0''" by simp
    with False show ?thesis by (simp add: digits_large)
  qed
qed

lemma takeWhile_digits:
  "rest = [] \<or> \<not> isDigit (hd rest) \<Longrightarrow> takeWhile isDigit (digits n @ rest) = digits n"
proof -
  assume r: "rest = [] \<or> \<not> isDigit (hd rest)"
  have "\<forall>c \<in> set (digits n). isDigit c" using digits_all_digit [of n] by (simp add: list_all_iff)
  then have "takeWhile isDigit (digits n @ rest) = digits n @ takeWhile isDigit rest"
    by (simp add: takeWhile_append2)
  moreover from r have "takeWhile isDigit rest = []" by (cases rest) auto
  ultimately show ?thesis by simp
qed

lemma delim_not_digit: "delim rest \<Longrightarrow> rest = [] \<or> \<not> isDigit (hd rest)"
  by (auto simp add: delim_def isDigit_def)

lemma delim_not_frac:
  "delim rest \<Longrightarrow> \<not> (rest \<noteq> [] \<and> (hd rest = CHR ''.'' \<or> hd rest = CHR ''e'' \<or> hd rest = CHR ''E''))"
  by (auto simp add: delim_def)

lemma number_digits_digits:
  assumes "rest = [] \<or> \<not> isDigit (hd rest)"
  shows "number_digits (digits n @ rest) = digits n"
proof (cases "n = 0")
  case True
  then have "digits n = ''0''" by (simp add: digits_small digit_char_def)
  then show ?thesis by (simp add: number_digits_def)
next
  case False
  then have "hd (digits n) \<noteq> CHR ''0''" by (simp add: hd_digits_zero)
  then have "hd (digits n @ rest) \<noteq> CHR ''0''" by (simp add: hd_append)
  then show ?thesis by (simp add: number_digits_def takeWhile_digits [OF assms])
qed

lemma parse_unsigned_digits:
  assumes "delim rest"
  shows "parse_unsigned neg (digits n @ rest) =
           (if neg \<and> n = 0 then Inl Unsupported
            else case round_float64 n of
                   None \<Rightarrow> Inl JSONError
                 | Some a \<Rightarrow> Inr (VFloat64 (if neg then - int a else int a), rest))"
  using delim_not_frac [OF assms]
  by (auto simp add: parse_unsigned_def Let_def
        number_digits_digits [OF delim_not_digit [OF assms]] digits_val_digits
        split: option.splits)

lemma parse_number_Itoa:
  assumes "delim rest"
  shows "parse_number (Itoa i @ rest) =
           (case round_float64 (nat \<bar>i\<bar>) of
              None \<Rightarrow> Inl JSONError
            | Some a \<Rightarrow> Inr (VFloat64 (if i < 0 then - int a else int a), rest))"
proof (cases "i < 0")
  case True
  then have "nat (- i) \<noteq> 0" by simp
  with True show ?thesis
    by (simp add: parse_number_def Itoa_def parse_unsigned_digits [OF assms]
          split: option.splits)
next
  case False
  have "hd (digits (nat i)) \<noteq> CHR ''-''"
    using digits_all_digit [of "nat i"]
    by (cases "digits (nat i)") (auto simp add: isDigit_def)
  then have "hd (digits (nat i) @ rest) \<noteq> CHR ''-''" by (simp add: hd_append)
  with False show ?thesis
    by (simp add: parse_number_def Itoa_def parse_unsigned_digits [OF assms]
          split: option.splits)
qed

subsection \<open>Strings\<close>





subsection \<open>White space\<close>


lemma skip_ws_id: "s = [] \<or> \<not> isSpace (hd s) \<Longrightarrow> skip_ws s = s"
  by (cases s) (auto simp add: skip_ws_def)

subsection \<open>The first byte of an encoding\<close>

lemma hd_Itoa: "Itoa i \<noteq> [] \<and> (hd (Itoa i) = CHR ''-'' \<or> isDigit (hd (Itoa i)))"
proof (cases "i < 0")
  case True
  then show ?thesis by (simp add: Itoa_def)
next
  case False
  have "isDigit (hd (digits (nat i)))"
    using digits_all_digit [of "nat i"] by (cases "digits (nat i)") simp_all
  with False show ?thesis by (simp add: Itoa_def)
qed

lemma starts_append: "starts s \<Longrightarrow> starts (s @ t)"
  by (cases s) (simp_all add: starts_def)

lemma starts_Itoa: "starts (Itoa i)"
  using hd_Itoa [of i] by (auto simp add: starts_def isSpace_def isDigit_def)


lemma skip_ws_starts: "starts s \<Longrightarrow> skip_ws s = s"
  by (rule skip_ws_id) (simp add: starts_def)

lemma parse_value_Itoa:
  "parse_value (Suc n) d (Itoa i @ rest) = parse_number (Itoa i @ rest)"
proof -
  obtain c cs where ic: "Itoa i = c # cs" using hd_Itoa [of i] by (cases "Itoa i") auto
  with hd_Itoa [of i] have c: "c = CHR ''-'' \<or> isDigit c" by simp
  then have "c \<noteq> CHR ''{''" "c \<noteq> CHR ''[''" "c \<noteq> dquote" by (auto simp add: isDigit_def)
  with c show ?thesis unfolding ic by simp
qed

lemma round_float64_small: "a < 2 ^ 53 \<Longrightarrow> round_float64 a = Some a"
  by (simp add: round_float64_def)

lemma parse_value_number:
  assumes "\<bar>i\<bar> < 2 ^ 53" and "delim rest"
  shows "parse_value (Suc n) d (Itoa i @ rest) = Inr (VFloat64 i, rest)"
proof -
  from assms(1) have "nat \<bar>i\<bar> < 2 ^ 53" by (simp add: nat_less_iff)
  then have "round_float64 (nat \<bar>i\<bar>) = Some (nat \<bar>i\<bar>)" by (rule round_float64_small)
  then show ?thesis
    by (simp add: parse_value_Itoa parse_number_Itoa [OF assms(2)])
qed


lemma parse_value_literals:
  "parse_value (Suc n) d (''null'' @ rest) = Inr (VNil, rest)"
  "parse_value (Suc n) d (''true'' @ rest) = Inr (VBool True, rest)"
  "parse_value (Suc n) d (''false'' @ rest) = Inr (VBool False, rest)"
  by (simp_all add: isDigit_def)

subsection \<open>Arrays\<close>







subsection \<open>Objects\<close>





subsection \<open>Every decoded value\<close>










subsection \<open>What the decoder returns\<close>









subsection \<open>Fuel\<close>

lemma skip_ws_length: "length (skip_ws s) \<le> length s"
  unfolding skip_ws_def by (rule length_dropWhile_le)

lemma tl_skip_ws_length: "skip_ws s \<noteq> [] \<Longrightarrow> length (skip_ws (tl (skip_ws s))) < length s"
proof -
  assume ne: "skip_ws s \<noteq> []"
  have "length (skip_ws (tl (skip_ws s))) \<le> length (tl (skip_ws s))" by (rule skip_ws_length)
  also from ne have "\<dots> < length (skip_ws s)" by simp
  also have "\<dots> \<le> length s" by (rule skip_ws_length)
  finally show ?thesis .
qed

lemma tl_skip_ws_length': "skip_ws s \<noteq> [] \<Longrightarrow> length (tl (skip_ws s)) < length s"
proof -
  assume ne: "skip_ws s \<noteq> []"
  then have "length (tl (skip_ws s)) < length (skip_ws s)" by simp
  also have "\<dots> \<le> length s" by (rule skip_ws_length)
  finally show ?thesis .
qed


lemma parse_string_u:
  "parse_string (backslash # CHR ''u'' # cs1) acc = r \<Longrightarrow>
     r = Inl JSONError \<or> r = Inl Unsupported \<or>
     (\<exists>acc'. parse_string (drop 4 cs1) acc' = r)"
proof -
  assume p: "parse_string (backslash # CHR ''u'' # cs1) acc = r"
  show ?thesis
  proof (cases "length cs1 < 4")
    case True
    then have "parse_string (backslash # CHR ''u'' # cs1) acc = Inl JSONError"
      by (cases cs1; cases "tl cs1"; cases "tl (tl cs1)"; cases "tl (tl (tl cs1))") simp_all
    with p show ?thesis by simp
  next
    case False
    then obtain h1 h2 h3 h4 where cs1: "cs1 = h1 # h2 # h3 # h4 # drop 4 cs1"
      by (cases cs1; cases "tl cs1"; cases "tl (tl cs1)"; cases "tl (tl (tl cs1))") simp_all
    have "parse_string (backslash # CHR ''u'' # h1 # h2 # h3 # h4 # drop 4 cs1) acc
            = (case hex4 h1 h2 h3 h4 of
                 None \<Rightarrow> Inl JSONError
               | Some n \<Rightarrow> if n < 128 then parse_string (drop 4 cs1) (acc @ [char_of n])
                           else Inl Unsupported)"
      by simp
    with p cs1 have "r = (case hex4 h1 h2 h3 h4 of
                 None \<Rightarrow> Inl JSONError
               | Some n \<Rightarrow> if n < 128 then parse_string (drop 4 cs1) (acc @ [char_of n])
                           else Inl Unsupported)"
      by simp
    then show ?thesis by (cases "hex4 h1 h2 h3 h4") auto
  qed
qed

lemma parse_string_unfold:
  "parse_string (c # cs) acc = r \<Longrightarrow>
     r = Inr (acc, cs) \<or> r = Inl JSONError \<or> r = Inl Unsupported \<or>
     (\<exists>acc'. parse_string cs acc' = r) \<or>
     (cs \<noteq> [] \<and> (\<exists>acc'. parse_string (tl cs) acc' = r)) \<or>
     (cs \<noteq> [] \<and> (\<exists>acc'. parse_string (drop 5 cs) acc' = r))"
proof -
  assume p: "parse_string (c # cs) acc = r"
  show ?thesis
  proof (cases "c = backslash")
    case False
    with p show ?thesis by (auto split: if_splits)
  next
    case True
    show ?thesis
    proof (cases cs)
      case Nil
      with p True show ?thesis by auto
    next
      case (Cons e cs1)
      show ?thesis
      proof (cases "e = CHR ''u''")
        case u: True
        from p True Cons u have "parse_string (backslash # CHR ''u'' # cs1) acc = r" by simp
        from parse_string_u [OF this] Cons show ?thesis by auto
      next
        case False
        with p True Cons show ?thesis by (cases "unescape e") auto
      qed
    qed
  qed
qed

lemma parse_string_rest: "parse_string s acc = Inr (str, rest) \<Longrightarrow> length rest < length s"
proof (induction "length s" arbitrary: s acc rule: less_induct)
  case less
  show ?case
  proof (cases s)
    case Nil
    with less.prems show ?thesis by simp
  next
    case (Cons c cs)
    from less.prems Cons have "parse_string (c # cs) acc = Inr (str, rest)" by simp
    from parse_string_unfold [OF this]
    consider (a) "rest = cs"
      | (b) acc' where "parse_string cs acc' = Inr (str, rest)"
      | (c) acc' where "parse_string (tl cs) acc' = Inr (str, rest)"
      | (d) acc' where "parse_string (drop 5 cs) acc' = Inr (str, rest)"
      by auto
    then show ?thesis
    proof cases
      case a
      with Cons show ?thesis by simp
    next
      case b
      have "length cs < length s" using Cons by simp
      from less.hyps [OF this b] Cons show ?thesis by simp
    next
      case c
      have "length (tl cs) < length s" using Cons by simp
      from less.hyps [OF this c] Cons show ?thesis by simp
    next
      case d
      have "length (drop 5 cs) < length s" using Cons by simp
      from less.hyps [OF this d] Cons show ?thesis by simp
    qed
  qed
qed

lemma parse_string_fuel: "parse_string s acc \<noteq> Inl OutOfFuel"
proof (induction "length s" arbitrary: s acc rule: less_induct)
  case less
  show ?case
  proof
    assume p: "parse_string s acc = Inl OutOfFuel"
    show False
    proof (cases s)
      case Nil
      with p show ?thesis by simp
    next
      case (Cons c cs)
      from p Cons have "parse_string (c # cs) acc = Inl OutOfFuel" by simp
      from parse_string_unfold [OF this]
      consider (b) acc' where "parse_string cs acc' = Inl OutOfFuel"
        | (c) acc' where "parse_string (tl cs) acc' = Inl OutOfFuel"
        | (d) acc' where "parse_string (drop 5 cs) acc' = Inl OutOfFuel"
        by auto
      then show ?thesis
      proof cases
        case b
        have "length cs < length s" using Cons by simp
        from less.hyps [OF this] b show ?thesis by blast
      next
        case c
        have "length (tl cs) < length s" using Cons by simp
        from less.hyps [OF this] c show ?thesis by blast
      next
        case d
        have "length (drop 5 cs) < length s" using Cons by simp
        from less.hyps [OF this] d show ?thesis by blast
      qed
    qed
  qed
qed

lemma parse_unsigned_rest:
  assumes "parse_unsigned neg s = Inr (v, rest)"
  shows "length rest < length s"
proof -
  from assms have ds: "number_digits s \<noteq> []" and r: "rest = drop (length (number_digits s)) s"
    by (auto simp add: parse_unsigned_def Let_def split: if_splits option.splits)
  from ds have "s \<noteq> []" by (cases s) (simp_all add: number_digits_def)
  with ds r show ?thesis by simp
qed

lemma parse_number_rest: "parse_number s = Inr (v, rest) \<Longrightarrow> length rest < length s"
proof -
  assume p: "parse_number s = Inr (v, rest)"
  show ?thesis
  proof (cases "s \<noteq> [] \<and> hd s = CHR ''-''")
    case True
    with p have "parse_unsigned True (tl s) = Inr (v, rest)" by (simp add: parse_number_def)
    then have "length rest < length (tl s)" by (rule parse_unsigned_rest)
    then show ?thesis by simp
  next
    case False
    with p have "parse_unsigned False s = Inr (v, rest)" by (simp add: parse_number_def)
    then show ?thesis by (rule parse_unsigned_rest)
  qed
qed

lemma parse_number_fuel: "parse_number s \<noteq> Inl OutOfFuel"
  by (simp add: parse_number_def parse_unsigned_def Let_def split: option.splits)

lemma parse_rest:
  "(\<forall>d s v rest. parse_value n d s = Inr (v, rest) \<longrightarrow> length rest < length s) \<and>
   (\<forall>d s acc m rest. parse_members n d s acc = Inr (m, rest) \<longrightarrow> length rest < length s) \<and>
   (\<forall>d s acc xs rest. parse_elements n d s acc = Inr (xs, rest) \<longrightarrow> length rest < length s)"
proof (induction n)
  case 0
  show ?case by simp
next
  case (Suc n)
  from Suc have ihv: "\<And>d s v rest. parse_value n d s = Inr (v, rest) \<Longrightarrow> length rest < length s"
    and ihm: "\<And>d s acc m rest. parse_members n d s acc = Inr (m, rest) \<Longrightarrow> length rest < length s"
    and ihe: "\<And>d s acc xs rest. parse_elements n d s acc = Inr (xs, rest) \<Longrightarrow> length rest < length s"
    by blast+
  have v: "length rest < length s" if p: "parse_value (Suc n) d s = Inr (v, rest)" for d s v rest
  proof (cases s)
    case Nil
    with p show ?thesis by simp
  next
    case (Cons c cs)
    consider (obj) "c = CHR ''{''" | (arr) "c \<noteq> CHR ''{''" "c = CHR ''[''"
      | (str) "c \<noteq> CHR ''{''" "c \<noteq> CHR ''[''" "c = dquote"
      | (num) "c \<noteq> CHR ''{''" "c \<noteq> CHR ''[''" "c \<noteq> dquote" "c = CHR ''-'' \<or> isDigit c"
      | (lit) "c \<noteq> CHR ''{''" "c \<noteq> CHR ''[''" "c \<noteq> dquote" "\<not> (c = CHR ''-'' \<or> isDigit c)"
      by blast
    then show ?thesis
    proof cases
      case obj
      with p Cons have depth: "d < maxNestingDepth" by (auto split: if_splits)
      show ?thesis
      proof (cases "skip_ws cs \<noteq> [] \<and> hd (skip_ws cs) = CHR ''}''")
        case True
        with p Cons obj depth have "rest = tl (skip_ws cs)" by auto
        with True tl_skip_ws_length' [of cs] Cons show ?thesis by simp
      next
        case False
        with p Cons obj depth obtain m where
          pm: "parse_members n (Suc d) (skip_ws cs) [] = Inr (m, rest)"
          by (auto split: sum.splits)
        from ihm [OF pm] skip_ws_length [of cs] Cons show ?thesis by simp
      qed
    next
      case arr
      with p Cons have depth: "d < maxNestingDepth" by (auto split: if_splits)
      show ?thesis
      proof (cases "skip_ws cs \<noteq> [] \<and> hd (skip_ws cs) = CHR '']''")
        case True
        with p Cons arr depth have "rest = tl (skip_ws cs)" by auto
        with True tl_skip_ws_length' [of cs] Cons show ?thesis by simp
      next
        case False
        with p Cons arr depth obtain xs where
          pe: "parse_elements n (Suc d) (skip_ws cs) [] = Inr (xs, rest)"
          by (auto split: sum.splits)
        from ihe [OF pe] skip_ws_length [of cs] Cons show ?thesis by simp
      qed
    next
      case str
      with p Cons obtain x where "parse_string cs [] = Inr (x, rest)"
        by (auto split: sum.splits)
      from parse_string_rest [OF this] Cons show ?thesis by simp
    next
      case num
      with p Cons have "parse_number (c # cs) = Inr (v, rest)" by simp
      from parse_number_rest [OF this] Cons show ?thesis by simp
    next
      case lit
      with p Cons have "rest = drop 4 (c # cs) \<or> rest = drop 5 (c # cs)"
        by (auto split: if_splits)
      with Cons show ?thesis by auto
    qed
  qed
  have m: "length rest < length s"
    if p: "parse_members (Suc n) d s acc = Inr (m, rest)" for d s acc m rest
  proof (cases s)
    case Nil
    with p show ?thesis by simp
  next
    case (Cons c cs)
    with p have c: "c = dquote" by (auto split: if_splits)
    with p Cons obtain key rest0 where ps: "parse_string cs [] = Inr (key, rest0)"
      by (auto split: sum.splits)
    with p Cons c have colon: "\<not> (skip_ws rest0 = [] \<or> hd (skip_ws rest0) \<noteq> CHR '':'')"
      by (auto split: if_splits)
    with p Cons c ps obtain v rest1 where
      pv: "parse_value n d (skip_ws (tl (skip_ws rest0))) = Inr (v, rest1)"
      by (auto split: sum.splits)
    from p Cons c ps colon pv have ne: "skip_ws rest1 \<noteq> []" by (auto split: if_splits)
    have "length rest1 < length (skip_ws (tl (skip_ws rest0)))" by (rule ihv [OF pv])
    also from colon have "\<dots> < length rest0" by (simp add: tl_skip_ws_length)
    also from parse_string_rest [OF ps] have "\<dots> < length cs" .
    finally have l1: "length rest1 < length cs" .
    from p Cons c ps colon pv have
      "(hd (skip_ws rest1) = CHR '','' \<and>
          parse_members n d (skip_ws (tl (skip_ws rest1))) (put key v acc) = Inr (m, rest))
       \<or> rest = tl (skip_ws rest1)"
      by (auto split: if_splits)
    then show ?thesis
    proof
      assume "hd (skip_ws rest1) = CHR '','' \<and>
          parse_members n d (skip_ws (tl (skip_ws rest1))) (put key v acc) = Inr (m, rest)"
      then have "length rest < length (skip_ws (tl (skip_ws rest1)))" using ihm by blast
      also from ne have "\<dots> < length rest1" by (rule tl_skip_ws_length)
      finally show ?thesis using l1 Cons by simp
    next
      assume "rest = tl (skip_ws rest1)"
      with tl_skip_ws_length' [OF ne] l1 Cons show ?thesis by simp
    qed
  qed
  have e: "length rest < length s"
    if p: "parse_elements (Suc n) d s acc = Inr (xs, rest)" for d s acc xs rest
  proof -
    from p obtain v rest1 where pv: "parse_value n d s = Inr (v, rest1)"
      by (auto split: sum.splits)
    from ihv [OF pv] have l1: "length rest1 < length s" .
    from p pv have ne: "skip_ws rest1 \<noteq> []" by (auto split: if_splits)
    from p pv have
      "(hd (skip_ws rest1) = CHR '','' \<and>
          parse_elements n d (skip_ws (tl (skip_ws rest1))) (acc @ [v]) = Inr (xs, rest))
       \<or> rest = tl (skip_ws rest1)"
      by (auto split: if_splits)
    then show ?thesis
    proof
      assume "hd (skip_ws rest1) = CHR '','' \<and>
          parse_elements n d (skip_ws (tl (skip_ws rest1))) (acc @ [v]) = Inr (xs, rest)"
      then have "length rest < length (skip_ws (tl (skip_ws rest1)))" using ihe by blast
      also from ne have "\<dots> < length rest1" by (rule tl_skip_ws_length)
      finally show ?thesis using l1 by simp
    next
      assume "rest = tl (skip_ws rest1)"
      with tl_skip_ws_length' [OF ne] l1 show ?thesis by simp
    qed
  qed
  from v m e show ?case by blast
qed

lemma parse_value_rest: "parse_value n d s = Inr (v, rest) \<Longrightarrow> length rest < length s"
  using parse_rest [of n] by blast

lemma parse_fuel:
  "(\<forall>d s. 2 * length s < n \<longrightarrow> parse_value n d s \<noteq> Inl OutOfFuel) \<and>
   (\<forall>d s acc. 2 * length s < n \<longrightarrow> parse_members n d s acc \<noteq> Inl OutOfFuel) \<and>
   (\<forall>d s acc. 2 * length s + 1 < n \<longrightarrow> parse_elements n d s acc \<noteq> Inl OutOfFuel)"
proof (induction n)
  case 0
  show ?case by simp
next
  case (Suc n)
  from Suc have ihv: "\<And>d s. 2 * length s < n \<Longrightarrow> parse_value n d s \<noteq> Inl OutOfFuel"
    and ihm: "\<And>d s acc. 2 * length s < n \<Longrightarrow> parse_members n d s acc \<noteq> Inl OutOfFuel"
    and ihe: "\<And>d s acc. 2 * length s + 1 < n \<Longrightarrow> parse_elements n d s acc \<noteq> Inl OutOfFuel"
    by blast+
  have v: "parse_value (Suc n) d s \<noteq> Inl OutOfFuel" if len: "2 * length s < Suc n" for d s
  proof
    assume p: "parse_value (Suc n) d s = Inl OutOfFuel"
    show False
    proof (cases s)
      case Nil
      with p show ?thesis by simp
    next
      case (Cons c cs)
      from len Cons skip_ws_length [of cs] have l: "2 * length (skip_ws cs) + 1 < n" by simp
      consider (obj) "c = CHR ''{''" | (arr) "c \<noteq> CHR ''{''" "c = CHR ''[''"
        | (str) "c \<noteq> CHR ''{''" "c \<noteq> CHR ''[''" "c = dquote"
        | (num) "c \<noteq> CHR ''{''" "c \<noteq> CHR ''[''" "c \<noteq> dquote" "c = CHR ''-'' \<or> isDigit c"
        | (lit) "c \<noteq> CHR ''{''" "c \<noteq> CHR ''[''" "c \<noteq> dquote" "\<not> (c = CHR ''-'' \<or> isDigit c)"
        by blast
      then show ?thesis
      proof cases
        case obj
        with p Cons have "parse_members n (Suc d) (skip_ws cs) [] = Inl OutOfFuel"
          by (auto split: if_splits sum.splits)
        moreover from l have "2 * length (skip_ws cs) < n" by simp
        ultimately show ?thesis using ihm by blast
      next
        case arr
        with p Cons have "parse_elements n (Suc d) (skip_ws cs) [] = Inl OutOfFuel"
          by (auto split: if_splits sum.splits)
        with l show ?thesis using ihe by blast
      next
        case str
        with p Cons have "parse_string cs [] = Inl OutOfFuel" by (auto split: sum.splits)
        then show ?thesis by (simp add: parse_string_fuel)
      next
        case num
        with p Cons have "parse_number (c # cs) = Inl OutOfFuel" by simp
        then show ?thesis by (simp add: parse_number_fuel)
      next
        case lit
        with p Cons show ?thesis by (auto split: if_splits)
      qed
    qed
  qed
  have m: "parse_members (Suc n) d s acc \<noteq> Inl OutOfFuel" if len: "2 * length s < Suc n"
    for d s acc
  proof
    assume p: "parse_members (Suc n) d s acc = Inl OutOfFuel"
    show False
    proof (cases s)
      case Nil
      with p show ?thesis by simp
    next
      case (Cons c cs)
      with p have c: "c = dquote" by (auto split: if_splits)
      from p Cons c parse_string_fuel [of cs "[]"] obtain key rest0 where
        ps: "parse_string cs [] = Inr (key, rest0)"
        by (auto split: sum.splits)
      with p Cons c have colon: "\<not> (skip_ws rest0 = [] \<or> hd (skip_ws rest0) \<noteq> CHR '':'')"
        by (auto split: if_splits)
      have "length (skip_ws (tl (skip_ws rest0))) < length rest0"
        using colon by (simp add: tl_skip_ws_length)
      also from parse_string_rest [OF ps] have "\<dots> < length cs" .
      finally have l0: "length (skip_ws (tl (skip_ws rest0))) < length cs" .
      with len Cons have "2 * length (skip_ws (tl (skip_ws rest0))) < n" by simp
      from ihv [OF this, of d] p Cons c ps colon obtain v rest1 where
        pv: "parse_value n d (skip_ws (tl (skip_ws rest0))) = Inr (v, rest1)"
        by (auto split: sum.splits)
      from p Cons c ps colon pv have ne: "skip_ws rest1 \<noteq> []" by (auto split: if_splits)
      from p Cons c ps colon pv ne have
        pm: "parse_members n d (skip_ws (tl (skip_ws rest1))) (put key v acc) = Inl OutOfFuel"
        by (auto split: if_splits)
      have "length (skip_ws (tl (skip_ws rest1))) < length rest1"
        using ne by (rule tl_skip_ws_length)
      also have "\<dots> < length (skip_ws (tl (skip_ws rest0)))" by (rule parse_value_rest [OF pv])
      finally have "length (skip_ws (tl (skip_ws rest1))) < length cs" using l0 by simp
      with len Cons have "2 * length (skip_ws (tl (skip_ws rest1))) < n" by simp
      from ihm [OF this] pm show ?thesis by blast
    qed
  qed
  have e: "parse_elements (Suc n) d s acc \<noteq> Inl OutOfFuel" if len: "2 * length s + 1 < Suc n"
    for d s acc
  proof
    assume p: "parse_elements (Suc n) d s acc = Inl OutOfFuel"
    from len have "2 * length s < n" by simp
    from ihv [OF this, of d] p obtain v rest1 where pv: "parse_value n d s = Inr (v, rest1)"
      by (auto split: sum.splits)
    from p pv have ne: "skip_ws rest1 \<noteq> []" by (auto split: if_splits)
    from p pv ne have
      pe: "parse_elements n d (skip_ws (tl (skip_ws rest1))) (acc @ [v]) = Inl OutOfFuel"
      by (auto split: if_splits)
    have "length (skip_ws (tl (skip_ws rest1))) < length rest1"
      using ne by (rule tl_skip_ws_length)
    also have "\<dots> < length s" by (rule parse_value_rest [OF pv])
    finally have "2 * length (skip_ws (tl (skip_ws rest1))) + 1 < n" using len by simp
    from ihe [OF this] pe show False by blast
  qed
  from v m e show ?case by blast
qed

lemma parse_value_fuel: "parse_value (fuel data) 0 (skip_ws data) \<noteq> Inl OutOfFuel"
proof -
  have "2 * length (skip_ws data) < fuel data"
    using skip_ws_length [of data] by (simp add: fuel_def)
  with parse_fuel [of "fuel data"] show ?thesis by blast
qed

lemma Unmarshal_fuel: "Unmarshal data \<noteq> Inl OutOfFuel"
  using parse_value_fuel [of data]
  by (auto simp add: Unmarshal_def split: sum.splits prod.splits any.splits)

lemma Decode_fuel: "Decode data \<noteq> Inl OutOfFuel"
  using parse_value_fuel [of data]
  by (auto simp add: Decode_def split: sum.splits prod.splits any.splits)

subsection \<open>Pretty-printing twice\<close>








subsection \<open>Integers of 64 bits\<close>

lemma bit_length_le: "a < 2 ^ k \<Longrightarrow> bit_length a \<le> k"
proof (induction k arbitrary: a)
  case 0
  then show ?case by (simp add: bit_length.simps)
next
  case (Suc k)
  from Suc.prems have "a div 2 < 2 ^ k" by simp
  from Suc.IH [OF this] show ?case by (subst bit_length.simps) simp
qed

lemma round_float64_int64:
  assumes "a < 2 ^ 64"
  shows "\<exists>x. round_float64 a = Some x"
proof (cases "a < 2 ^ 53")
  case True
  then show ?thesis by (simp add: round_float64_def)
next
  case False
  define s where "s = bit_length a - 53"
  define m where "m = a div 2 ^ s"
  define m' where "m' = (if 2 ^ (s - 1) < a mod 2 ^ s \<or> (a mod 2 ^ s = 2 ^ (s - 1) \<and> odd m)
                          then m + 1 else m)"
  from bit_length_le [OF assms] have "s \<le> 11" by (simp add: s_def)
  then have p: "(2::nat) ^ s \<le> 2 ^ 11" by (rule power_increasing) simp
  have "m \<le> a" by (simp add: m_def)
  with assms have q: "m' \<le> 2 ^ 64" by (simp add: m'_def)
  from q p have "m' * 2 ^ s \<le> 2 ^ 64 * 2 ^ 11" by (rule mult_mono) simp_all
  also have "\<dots> < (2::nat) ^ 1024" by simp
  finally have "\<not> 2 ^ 1024 \<le> m' * 2 ^ s" by simp
  moreover have "round_float64 a = (if 2 ^ 1024 \<le> m' * 2 ^ s then None else Some (m' * 2 ^ s))"
    unfolding round_float64_def Let_def m'_def m_def s_def using False by simp
  ultimately show ?thesis by simp
qed

lemma parse_value_int64:
  assumes "delim rest" and "\<bar>i\<bar> < 2 ^ 64"
  shows "\<exists>x. \<forall>n d. parse_value (Suc n) d (Itoa i @ rest) = Inr (VFloat64 x, rest)"
proof -
  from assms(2) have "nat \<bar>i\<bar> < 2 ^ 64" by (simp add: nat_less_iff)
  from round_float64_int64 [OF this] obtain a where "round_float64 (nat \<bar>i\<bar>) = Some a" ..
  then show ?thesis by (simp add: parse_value_Itoa parse_number_Itoa [OF assms(1)])
qed

lemma sint_int64: "\<bar>sint (w :: 64 word)\<bar> < 2 ^ 64"
proof -
  have "- (2 ^ 63) \<le> sint w" using sint_ge [of w] by simp
  moreover have "sint w < 2 ^ 63" using sint_lt [of w] by simp
  ultimately show ?thesis by simp
qed

subsection \<open>The body of \<^verbatim>\<open>POST /v1/user\<close>\<close>

lemma skip_ws_Cons: "\<not> isSpace c \<Longrightarrow> skip_ws (c # cs) = c # cs"
  by (simp add: skip_ws_def)

lemma parse_members_created_time:
  assumes x: "\<And>n d. parse_value (Suc n) d (Itoa i @ ''}'') = Inr (VFloat64 x, ''}'')"
  shows "parse_members (Suc (Suc k)) d
           ([dquote] @ ''created_time'' @ [dquote] @ '':'' @ Itoa i @ ''}'') [(''id'', VFloat64 1)]
         = Inr ([(''created_time'', VFloat64 x), (''id'', VFloat64 1)], [])"
proof -
  have sk: "skip_ws (Itoa i @ ''}'') = Itoa i @ ''}''"
    by (rule skip_ws_starts, rule starts_append, rule starts_Itoa)
  show ?thesis
    by (simp add: x sk skip_ws_Cons isSpace_def)
qed

lemma parse_value_one:
  "parse_value (Suc k) d (''1,'' @ rest) = Inr (VFloat64 1, '','' @ rest)"
proof -
  have "Itoa 1 = ''1''" by (simp add: json_eval)
  moreover have "delim ('','' @ rest)" by (simp add: delim_def)
  ultimately show ?thesis using parse_value_number [of 1 "'','' @ rest" k d] by simp
qed

lemma parse_value_user:
  assumes x: "\<And>n d. parse_value (Suc n) d (Itoa i @ ''}'') = Inr (VFloat64 x, ''}'')"
  shows "parse_value (Suc (Suc (Suc (Suc k)))) 0
           (''{'' @ [dquote] @ ''id'' @ [dquote] @ '':1,'' @ [dquote] @ ''created_time''
                   @ [dquote] @ '':'' @ Itoa i @ ''}'')
         = Inr (VMap [(''created_time'', VFloat64 x), (''id'', VFloat64 1)], [])"
proof -
  have m: "parse_members (Suc (Suc (Suc k))) (Suc 0)
             ([dquote] @ ''id'' @ [dquote] @ '':'' @ ''1,'' @ [dquote] @ ''created_time''
                   @ [dquote] @ '':'' @ Itoa i @ ''}'') []
           = Inr ([(''created_time'', VFloat64 x), (''id'', VFloat64 1)], [])"
    using parse_members_created_time [OF x, of k "Suc 0"]
      parse_value_one [of "Suc k" "Suc 0" "[dquote] @ ''created_time''
                   @ [dquote] @ '':'' @ Itoa i @ ''}''"]
    by (simp add: skip_ws_Cons isSpace_def)
  show ?thesis using m
    by (simp add: skip_ws_Cons isSpace_def maxNestingDepth_def)
qed

lemma Decode_user:
  "\<exists>x. Decode (''{'' @ [dquote] @ ''id'' @ [dquote] @ '':1,'' @ [dquote] @ ''created_time''
                   @ [dquote] @ '':'' @ Itoa (sint (now :: 64 word)) @ ''}'')
        = Inr (Some [(''created_time'', VFloat64 x), (''id'', VFloat64 1)])"
proof -
  let ?body = "''{'' @ [dquote] @ ''id'' @ [dquote] @ '':1,'' @ [dquote] @ ''created_time''
                 @ [dquote] @ '':'' @ Itoa (sint now) @ ''}''"
  have "delim ''}''" by (simp add: delim_def)
  from parse_value_int64 [OF this sint_int64, of now]
  obtain x where ax: "\<forall>n d. parse_value (Suc n) d (Itoa (sint now) @ ''}'') = Inr (VFloat64 x, ''}'')" ..
  then have x: "\<And>n d. parse_value (Suc n) d (Itoa (sint now) @ ''}'') = Inr (VFloat64 x, ''}'')"
    by simp
  define k where "k = fuel ?body - 4"
  have k: "fuel ?body = Suc (Suc (Suc (Suc k)))" by (simp add: k_def fuel_def)
  have sb: "skip_ws ?body = ?body" by (simp add: skip_ws_Cons isSpace_def)
  have dec: "Decode ?body = Inr (Some [(''created_time'', VFloat64 x), (''id'', VFloat64 1)])"
    unfolding Decode_def sb k parse_value_user [OF x] by simp
  show ?thesis by (rule exI [of _ x]) (rule dec)
qed

lemma ModifyJSON_user:
  "ModifyJSON json_model [(''created_time'', VInt 1677136520)]
     \<lparr>StatusCode = 201, Header = json_header,
      Body = ''{'' @ [dquote] @ ''id'' @ [dquote] @ '':1,'' @ [dquote] @ ''created_time''
               @ [dquote] @ '':'' @ Itoa (sint (now :: 64 word)) @ ''}''\<rparr>
   = Filtered [] False (Some \<lparr>StatusCode = 201, Header = json_header,
      Body = ''{'' @ [dquote] @ ''created_time'' @ [dquote] @ '':1677136520,'' @ [dquote]
               @ ''id'' @ [dquote] @ '':1}'' @ [newline]\<rparr>)"
proof -
  from Decode_user [of now] obtain x where
    "Decode (''{'' @ [dquote] @ ''id'' @ [dquote] @ '':1,'' @ [dquote] @ ''created_time''
               @ [dquote] @ '':'' @ Itoa (sint now) @ ''}'')
       = Inr (Some [(''created_time'', VFloat64 x), (''id'', VFloat64 1)])" ..
  moreover have "Encode (Some [(''created_time'', VInt 1677136520), (''id'', VFloat64 1)])
       = Inr (''{'' @ [dquote] @ ''created_time'' @ [dquote] @ '':1677136520,'' @ [dquote]
               @ ''id'' @ [dquote] @ '':1}'' @ [newline])"
    by (simp add: json_eval)
  ultimately show ?thesis
    by (simp add: ModifyJSON_def continue_def json_model_def)
qed

lemma PrettyJSON_user:
  "PrettyJSON json_model \<lparr>StatusCode = 201, Header = json_header,
      Body = ''{'' @ [dquote] @ ''created_time'' @ [dquote] @ '':1677136520,'' @ [dquote]
               @ ''id'' @ [dquote] @ '':1}'' @ [newline]\<rparr>
   = Filtered [] False (Some \<lparr>StatusCode = 201, Header = json_header,
      Body = ''{'' @ [newline] @ ''  '' @ [dquote] @ ''created_time'' @ [dquote]
               @ '': 1677136520,'' @ [newline] @ ''  '' @ [dquote] @ ''id'' @ [dquote]
               @ '': 1'' @ [newline] @ ''}''\<rparr>)"
  by (simp add: json_eval filter_eval json_header_def)

text \<open>
  C1. Whatever the clock of the server reads, \<^verbatim>\<open>POST /v1/user\<close> is answered with status 201
  and the body \<^verbatim>\<open>{"id":1,"created_time":<now>}\<close>, and the filters
  \<^verbatim>\<open>ModifyJSON(map[string]any{"created_time": 1677136520})\<close> and \<^verbatim>\<open>PrettyJSON\<close>, run in this
  order on that response, fail nothing, log nothing and leave the body
  \<^verbatim>\<open>{\n  "created_time": 1677136520,\n  "id": 1\n}\<close>: the same bytes at every run.
\<close>

theorem post_user_rewrite_pretty:
  "newRouter now \<lparr>Method = ''POST'', URL = ''/v1/user'', Path = ''/v1/user'', Query = q,
                  RequestBody = body\<rparr>
     = \<lparr>StatusCode = 201, Header = json_header,
        Body = ''{'' @ [dquote] @ ''id'' @ [dquote] @ '':1,'' @ [dquote] @ ''created_time''
                 @ [dquote] @ '':'' @ Itoa (sint now) @ ''}''\<rparr> \<and>
   runFilters [ModifyJSON json_model [(''created_time'', VInt 1677136520)], PrettyJSON json_model] t
     (newRouter now \<lparr>Method = ''POST'', URL = ''/v1/user'', Path = ''/v1/user'', Query = q,
                     RequestBody = body\<rparr>)
     = (t, Some \<lparr>StatusCode = 201, Header = json_header,
          Body = ''{'' @ [newline] @ ''  '' @ [dquote] @ ''created_time'' @ [dquote]
                   @ '': 1677136520,'' @ [newline] @ ''  '' @ [dquote] @ ''id'' @ [dquote]
                   @ '': 1'' @ [newline] @ ''}''\<rparr>)"
proof -
  have r: "newRouter now \<lparr>Method = ''POST'', URL = ''/v1/user'', Path = ''/v1/user'', Query = q,
                  RequestBody = body\<rparr>
     = \<lparr>StatusCode = 201, Header = json_header,
        Body = ''{'' @ [dquote] @ ''id'' @ [dquote] @ '':1,'' @ [dquote] @ ''created_time''
                 @ [dquote] @ '':'' @ Itoa (sint now) @ ''}''\<rparr>"
    by (simp add: newRouter_def)
  show ?thesis unfolding r
    by (simp only: runFilters.simps ModifyJSON_user PrettyJSON_user Let_def filtered.sel
          option.case simp_thms append_Nil2) simp
qed

theorem post_user_rewrite_pretty_witness:
  "runFilters [ModifyJSON json_model [(''created_time'', VInt 1677136520)], PrettyJSON json_model] example_T
     (newRouter 1700000000 (example_request ''POST'' ''/v1/user''))
     = (example_T, Some \<lparr>StatusCode = 201, Header = json_header,
          Body = ''{'' @ [newline] @ ''  '' @ [dquote] @ ''created_time'' @ [dquote]
                   @ '': 1677136520,'' @ [newline] @ ''  '' @ [dquote] @ ''id'' @ [dquote]
                   @ '': 1'' @ [newline] @ ''}''\<rparr>) \<and>
   Body (newRouter 1700000000 (example_request ''POST'' ''/v1/user''))
     = ''{'' @ [dquote] @ ''id'' @ [dquote] @ '':1,'' @ [dquote] @ ''created_time''
         @ [dquote] @ '':1700000000}''"
proof -
  have a: "runFilters [ModifyJSON json_model [(''created_time'', VInt 1677136520)], PrettyJSON json_model] example_T
     (newRouter 1700000000 (example_request ''POST'' ''/v1/user''))
     = (example_T, Some \<lparr>StatusCode = 201, Header = json_header,
          Body = ''{'' @ [newline] @ ''  '' @ [dquote] @ ''created_time'' @ [dquote]
                   @ '': 1677136520,'' @ [newline] @ ''  '' @ [dquote] @ ''id'' @ [dquote]
                   @ '': 1'' @ [newline] @ ''}''\<rparr>)"
    unfolding example_request_def by (rule post_user_rewrite_pretty [THEN conjunct2])
  have b: "Body (newRouter 1700000000 (example_request ''POST'' ''/v1/user''))
     = ''{'' @ [dquote] @ ''id'' @ [dquote] @ '':1,'' @ [dquote] @ ''created_time''
         @ [dquote] @ '':1700000000}''"
    by (simp add: newRouter_def example_request_def json_eval)
  from a b show ?thesis by (intro conjI)
qed

end
